theory Spec2Isabelle
  imports Main
begin

section \<open>Data model of tic-tac-toe.py\<close>

text \<open>
  A board is a numpy array of shape \<open>(3, 3)\<close> holding integers; the meta board is an
  array of shape \<open>(3, 3, 3, 3)\<close>, read as a 3 x 3 grid of boards, and the meta results
  are again a 3 x 3 grid of integers. A grid is modelled as a function from the index
  pair \<open>(i, j)\<close> to the entry; the program only ever reads and writes index pairs with
  \<open>i, j < 3\<close> (they come from \<open>np.argwhere\<close> and from \<open>random.choice([0, 1, 2])\<close>),
  so entries at other indices play no role. The entry \<open>0\<close> is the empty mark. Mark values
  are mathematical integers. The arrays hold 64-bit entries: the marks the program itself
  stores (0, 1, -1, 101) fit, and the model is the program for every player whose mark
  fits; a mark outside that range cannot be stored at all (numpy raises
  \<open>OverflowError\<close>) and is not modelled.
\<close>

type_synonym cell = "nat \<times> nat"
type_synonym 'a grid = "cell \<Rightarrow> 'a"
type_synonym board = "int grid"

datatype Status = OFFENSE | DEFENSE | RANDOM | FULL

record Player =
  name :: string
  property_value :: int

text \<open>The two module-level players created under \<open>__main__\<close>.\<close>

definition P1 :: Player where
  "P1 = \<lparr>name = ''Bot1'', property_value = 1\<rparr>"

definition P2 :: Player where
  "P2 = \<lparr>name = ''Bot2'', property_value = - 1\<rparr>"

text \<open>\<open>Player(name="Tracker", property_value=101)\<close>, built inside both searches.\<close>

definition attempts_tracker :: Player where
  "attempts_tracker = \<lparr>name = ''Tracker'', property_value = 101\<rparr>"

subsection \<open>The random source\<close>

text \<open>
  The module \<open>random\<close> is the program's only input. It is modelled as the infinite
  sequence of raw draws it will make, consumed from the front and threaded through every
  function that draws: \<open>random.randint(lo, hi)\<close> reduces the next raw draw into the range,
  \<open>random.choice(xs)\<close> indexes \<open>xs\<close> with it. Every outcome the library can produce is
  produced by some sequence, so a statement for all sequences is a statement for all
  outcomes.
\<close>

type_synonym rng = "nat \<Rightarrow> nat"

definition rng_rest :: "rng \<Rightarrow> rng" where
  "rng_rest g = (\<lambda>i. g (Suc i))"

definition random_randint :: "rng \<Rightarrow> nat \<Rightarrow> nat \<Rightarrow> nat \<times> rng" where
  "random_randint g lo hi = (lo + g 0 mod (hi - lo + 1), rng_rest g)"

definition random_choice :: "rng \<Rightarrow> 'a list \<Rightarrow> 'a \<times> rng" where
  "random_choice g xs = (xs ! (g 0 mod length xs), rng_rest g)"

section \<open>Single boards\<close>

definition create_board :: board where
  "create_board = (\<lambda>c. 0)"

text \<open>\<open>np.argwhere(instance_board == 0)\<close>: the empty cells in row-major order.\<close>

definition find_available_cells :: "board \<Rightarrow> cell list" where
  "find_available_cells instance_board =
     filter (\<lambda>c. instance_board c = 0) (List.product [0 ..< 3] [0 ..< 3])"

definition pick_cell_randomly :: "rng \<Rightarrow> board \<Rightarrow> cell option \<times> rng" where
  "pick_cell_randomly g instance_board =
     (let cells_available = find_available_cells instance_board;
          cells_available_max = length cells_available
      in if cells_available_max > 0
         then (let (random_cell, g') = random_randint g 0 (cells_available_max - 1)
               in (Some (cells_available ! random_cell), g'))
         else (None, g))"

definition assign_cell :: "board \<Rightarrow> cell \<Rightarrow> Player \<Rightarrow> board" where
  "assign_cell instance_board cell_indices player =
     instance_board (cell_indices := property_value player)"

text \<open>\<open>np.all(xs == v)\<close> on a one-dimensional slice.\<close>

definition np_all_eq :: "int list \<Rightarrow> int \<Rightarrow> bool" where
  "np_all_eq xs v = list_all (\<lambda>x. x = v) xs"

definition check_winner :: "int grid \<Rightarrow> Player \<Rightarrow> bool" where
  "check_winner instance_board player =
     (let player_val = property_value player;
          row_check =
            (np_all_eq (map (\<lambda>j. instance_board (0, j)) [0 ..< 3]) player_val
             \<or> np_all_eq (map (\<lambda>j. instance_board (1, j)) [0 ..< 3]) player_val
             \<or> np_all_eq (map (\<lambda>j. instance_board (2, j)) [0 ..< 3]) player_val);
          column_check =
            (np_all_eq (map (\<lambda>i. instance_board (i, 0)) [0 ..< 3]) player_val
             \<or> np_all_eq (map (\<lambda>i. instance_board (i, 1)) [0 ..< 3]) player_val
             \<or> np_all_eq (map (\<lambda>i. instance_board (i, 2)) [0 ..< 3]) player_val);
          diagonal_check =
            (np_all_eq (map instance_board (zip [0 ..< 3] (rev [0 ..< 3]))) player_val
             \<or> np_all_eq (map (\<lambda>i. instance_board (i, i)) [0 ..< 3]) player_val)
      in row_check \<or> column_check \<or> diagonal_check)"

text \<open>
  \<open>random_move\<close>: the board is mutated in place in the source, so the model returns it.
  A picked cell is a non-empty tuple, hence truthy; only \<open>None\<close> is falsy.
\<close>

definition random_move :: "rng \<Rightarrow> board \<Rightarrow> Player \<Rightarrow> bool \<times> board \<times> rng" where
  "random_move g instance_board player =
     (case pick_cell_randomly g instance_board of
        (Some cells_picked, g') \<Rightarrow> (True, assign_cell instance_board cells_picked player, g')
      | (None, g') \<Rightarrow> (False, instance_board, g'))"

text \<open>
  The \<open>while cells_picked:\<close> loop of \<open>defensive_move\<close>. The source picks a cell before the
  loop and again at the end of each round; the model picks at the head of each round,
  which is the same sequence of draws. \<open>board_copy\<close> is the private copy the search
  marks, \<open>instance_board\<close> the real board, written only when a winning cell is found.
\<close>

function defensive_while ::
  "rng \<Rightarrow> board \<Rightarrow> board \<Rightarrow> Player \<Rightarrow> Player \<Rightarrow> bool \<times> board \<times> rng" where
  "defensive_while g instance_board board_copy opponent_player player =
     (case pick_cell_randomly g board_copy of
        (None, g') \<Rightarrow> (False, instance_board, g')
      | (Some cells_picked, g') \<Rightarrow>
          (let board_copy1 = assign_cell board_copy cells_picked opponent_player
           in if check_winner board_copy1 opponent_player
              then (True, assign_cell instance_board cells_picked player, g')
              else defensive_while g' instance_board
                     (assign_cell board_copy1 cells_picked attempts_tracker)
                     opponent_player player))"
  by pat_completeness auto

lemma pick_cell_randomly_Some:
  "pick_cell_randomly g b = (Some c, g') \<Longrightarrow> c \<in> set (find_available_cells b)"
  by (auto simp: pick_cell_randomly_def random_randint_def Let_def split: if_splits)

lemma length_available_tracker:
  assumes "c \<in> set (find_available_cells b)"
  shows "length (find_available_cells (assign_cell (assign_cell b c q) c attempts_tracker))
           < length (find_available_cells b)"
proof -
  let ?cells = "List.product [0 ..< 3] [0 ..< (3::nat)]"
  let ?b' = "assign_cell (assign_cell b c q) c attempts_tracker"
  have "filter (\<lambda>x. ?b' x = 0) ?cells
          = filter (\<lambda>x. x \<noteq> c) (filter (\<lambda>x. b x = 0) ?cells)"
    by (auto simp: assign_cell_def attempts_tracker_def intro!: filter_cong)
  moreover have "length (filter (\<lambda>x. x \<noteq> c) (filter (\<lambda>x. b x = 0) ?cells))
                   < length (filter (\<lambda>x. b x = 0) ?cells)"
    using assms by (intro length_filter_less[of c]) (auto simp: find_available_cells_def)
  ultimately show ?thesis by (simp add: find_available_cells_def)
qed

termination defensive_while
  by (relation "measure (\<lambda>(g, ib, bc, opp, p). length (find_available_cells bc))")
     (auto dest!: pick_cell_randomly_Some[OF sym] intro: length_available_tracker)

definition defensive_move :: "rng \<Rightarrow> board \<Rightarrow> Player \<Rightarrow> bool \<times> board \<times> rng" where
  "defensive_move g instance_board player =
     (let board_copy = instance_board;
          opponent_player = (if property_value player = 1 then P2 else P1)
      in defensive_while g instance_board board_copy opponent_player player)"

text \<open>The loop of \<open>offensive_move\<close>: the same search, trying the player's own mark.\<close>

function offensive_while ::
  "rng \<Rightarrow> board \<Rightarrow> board \<Rightarrow> Player \<Rightarrow> bool \<times> board \<times> rng" where
  "offensive_while g instance_board board_copy player =
     (case pick_cell_randomly g board_copy of
        (None, g') \<Rightarrow> (False, instance_board, g')
      | (Some cells_picked, g') \<Rightarrow>
          (let board_copy1 = assign_cell board_copy cells_picked player
           in if check_winner board_copy1 player
              then (True, assign_cell instance_board cells_picked player, g')
              else offensive_while g' instance_board
                     (assign_cell board_copy1 cells_picked attempts_tracker) player))"
  by pat_completeness auto

termination offensive_while
  by (relation "measure (\<lambda>(g, ib, bc, p). length (find_available_cells bc))")
     (auto dest!: pick_cell_randomly_Some[OF sym] intro: length_available_tracker)

definition offensive_move :: "rng \<Rightarrow> board \<Rightarrow> Player \<Rightarrow> bool \<times> board \<times> rng" where
  "offensive_move g instance_board player =
     (let board_copy = instance_board
      in offensive_while g instance_board board_copy player)"

definition fill_cell :: "rng \<Rightarrow> board \<Rightarrow> Player \<Rightarrow> Status \<times> board \<times> rng" where
  "fill_cell g instance_board player =
     (case offensive_move g instance_board player of
        (False, board1, g1) \<Rightarrow>
          (case defensive_move g1 board1 player of
             (False, board2, g2) \<Rightarrow>
               (case random_move g2 board2 player of
                  (False, board3, g3) \<Rightarrow> (FULL, board3, g3)
                | (True, board3, g3) \<Rightarrow> (RANDOM, board3, g3))
           | (True, board2, g2) \<Rightarrow> (DEFENSE, board2, g2))
      | (True, board1, g1) \<Rightarrow> (OFFENSE, board1, g1))"

section \<open>The meta game\<close>

text \<open>
  \<open>choose_player\<close>: a \<open>Player\<close> object is always truthy, so the test \<open>if current_player\<close>
  only separates a player from \<open>None\<close>.
\<close>

definition choose_player :: "rng \<Rightarrow> Player option \<Rightarrow> Player \<times> rng" where
  "choose_player g current_player =
     (case current_player of
        Some cp \<Rightarrow> (if property_value cp = 1 then P2 else P1, g)
      | None \<Rightarrow> random_choice g [P1, P2])"

text \<open>\<open>np.all(instance_board != 0)\<close> over the nine entries.\<close>

definition is_board_complete :: "int grid \<Rightarrow> bool" where
  "is_board_complete instance_board =
     list_all (\<lambda>c. instance_board c \<noteq> 0) (List.product [0 ..< 3] [0 ..< 3])"

definition update_meta_results :: "int grid \<Rightarrow> cell \<Rightarrow> Player \<Rightarrow> int grid" where
  "update_meta_results meta_board_results board_pos player =
     meta_board_results (board_pos := property_value player)"

definition reset_board :: "board grid \<Rightarrow> int grid \<Rightarrow> cell \<Rightarrow> board grid \<times> int grid" where
  "reset_board meta_board meta_board_results board_pos =
     (meta_board (board_pos := create_board), meta_board_results (board_pos := 0))"

text \<open>
  \<open>choose_board\<close> calls itself until the drawn position is undecided, and nothing bounds
  the number of calls, so it is a partial function: \<open>None\<close> stands for a run that never
  returns. The source returns the chosen board (a view into \<open>meta_board\<close>) and its
  position; \<open>reset_board\<close> writes into the caller's arrays, so the model also returns
  both arrays, and the rest of the random source.
\<close>

partial_function (option) choose_board ::
  "rng \<Rightarrow> board grid \<Rightarrow> int grid \<Rightarrow> (board \<times> cell \<times> board grid \<times> int grid \<times> rng) option" where
  "choose_board g meta_board meta_board_results =
     (let (x, g1) = random_choice g [0, 1, 2];
          (y, g2) = random_choice g1 [0, 1, 2];
          (meta_board', meta_board_results') =
            (if is_board_complete meta_board_results
             then reset_board meta_board meta_board_results (x, y)
             else (meta_board, meta_board_results));
          current_choice = meta_board_results' (x, y)
      in if current_choice = 0
         then Some (meta_board' (x, y), (x, y), meta_board', meta_board_results', g2)
         else choose_board g2 meta_board' meta_board_results')"

declare choose_board.simps [code]

text \<open>
  The retry of \<open>choose_board\<close> is a call of the function by itself, and CPython ends a
  chain of nested calls that grows beyond its recursion limit with \<open>RecursionError\<close>
  (the source does not change the limit of 1000). \<open>choose_board_within d\<close> is
  \<open>choose_board\<close> when the interpreter has room for \<open>d\<close> nested calls of it: how many
  that is depends on the limit and on the depth of the caller, so \<open>d\<close> is a parameter.
  The error is a value of the result type.
\<close>

datatype error = RecursionError

fun choose_board_within ::
  "nat \<Rightarrow> rng \<Rightarrow> board grid \<Rightarrow> int grid
     \<Rightarrow> (error + (board \<times> cell \<times> board grid \<times> int grid \<times> rng))" where
  "choose_board_within 0 g mb mr = Inl RecursionError"
| "choose_board_within (Suc d) g mb mr =
     (let (x, g1) = random_choice g [0, 1, 2];
          (y, g2) = random_choice g1 [0, 1, 2];
          (mb', mr') =
            (if is_board_complete mr then reset_board mb mr (x, y) else (mb, mr));
          current_choice = mr' (x, y)
      in if current_choice = 0
         then Inr (mb' (x, y), (x, y), mb', mr', g2)
         else choose_board_within d g2 mb' mr')"

text \<open>
  The state of \<open>play_meta_game_bots\<close>: its local variables and the random source.
  \<open>current_board\<close> is a view of \<open>meta_board\<close> at \<open>current_board_pos\<close>, so the cell
  \<open>fill_cell\<close> writes is written into \<open>meta_board\<close>.
\<close>

record game =
  meta_board :: "board grid"
  meta_board_results :: "int grid"
  current_player :: Player
  current_board_pos :: cell
  status :: Status
  source :: rng

text \<open>
  Lines 318 to 324 of the source, the first half of the loop body: what the outcome of
  the previous move does to the meta game.
\<close>

definition resolve_status ::
  "Status \<Rightarrow> board grid \<Rightarrow> int grid \<Rightarrow> cell \<Rightarrow> Player \<Rightarrow> board grid \<times> int grid" where
  "resolve_status st mb mr pos player =
     (if st = FULL then reset_board mb mr pos
      else if st = OFFENSE then (mb, update_meta_results mr pos player)
      else (mb, mr))"

text \<open>
  Lines 326 to 329 (and 312 to 315 before the loop): choose the player, choose the board,
  fill a cell of it.
\<close>

definition next_move ::
  "rng \<Rightarrow> board grid \<Rightarrow> int grid \<Rightarrow> Player option \<Rightarrow> game option" where
  "next_move g mb mr last_player =
     (let (player, g1) = choose_player g last_player
      in case choose_board g1 mb mr of
           None \<Rightarrow> None
         | Some (current_board, pos, mb1, mr1, g2) \<Rightarrow>
             (let (st, current_board', g3) = fill_cell g2 current_board player
              in Some \<lparr>meta_board = mb1 (pos := current_board'),
                       meta_board_results = mr1,
                       current_player = player,
                       current_board_pos = pos,
                       status = st,
                       source = g3\<rparr>))"

text \<open>One round of the \<open>while\<close> loop of \<open>play_meta_game_bots\<close>.\<close>

definition bots_round :: "game \<Rightarrow> game option" where
  "bots_round s =
     (let (mb, mr) = resolve_status (status s) (meta_board s) (meta_board_results s)
                       (current_board_pos s) (current_player s)
      in next_move (source s) mb mr (Some (current_player s)))"

text \<open>The condition of the \<open>while\<close> loop, line 317.\<close>

definition while_condition :: "game \<Rightarrow> bool" where
  "while_condition s \<longleftrightarrow>
     \<not> check_winner (meta_board_results s) P1 \<and> \<not> check_winner (meta_board_results s) P2"

partial_function (option) bots_while :: "game \<Rightarrow> game option" where
  "bots_while s =
     (if while_condition s
      then (case bots_round s of None \<Rightarrow> None | Some s' \<Rightarrow> bots_while s')
      else Some s)"

declare bots_while.simps [code]

text \<open>\<open>np.array([create_board()]*9).reshape((3, 3, 3, 3))\<close>: nine separate empty boards.\<close>

definition fresh_meta_board :: "board grid" where
  "fresh_meta_board = (\<lambda>pos. create_board)"

text \<open>
  Lines 309 to 329: the arrays are created, the first move is made and the loop runs.
  The result is the state in which the loop ends.
\<close>

definition bots_game :: "rng \<Rightarrow> game option" where
  "bots_game g =
     (case next_move g fresh_meta_board create_board None of
        None \<Rightarrow> None
      | Some s0 \<Rightarrow> bots_while s0)"

definition play_meta_game_bots :: "rng \<Rightarrow> Player option" where
  "play_meta_game_bots g =
     (case bots_game g of
        None \<Rightarrow> None
      | Some s \<Rightarrow> Some (if check_winner (meta_board_results s) P2 then P2 else P1))"

section \<open>Notions used in the statements\<close>

text \<open>The eight lines of a 3 x 3 grid: rows, columns, anti-diagonal, diagonal.\<close>

definition winning_lines :: "cell list list" where
  "winning_lines =
     [[(0, 0), (0, 1), (0, 2)], [(1, 0), (1, 1), (1, 2)], [(2, 0), (2, 1), (2, 2)],
      [(0, 0), (1, 0), (2, 0)], [(0, 1), (1, 1), (2, 1)], [(0, 2), (1, 2), (2, 2)],
      [(0, 2), (1, 1), (2, 0)], [(0, 0), (1, 1), (2, 2)]]"

text \<open>
  The relation between the real board and the private copy during a search: the copy
  differs from the real board only at empty cells it has marked with the tracker value.
\<close>

definition marked :: "board \<Rightarrow> board \<Rightarrow> bool" where
  "marked instance_board board_copy \<longleftrightarrow>
     (\<forall>c. board_copy c = instance_board c \<or> (instance_board c = 0 \<and> board_copy c = 101))"

text \<open>The position \<open>(x, y)\<close> that line 250 draws, and the random source after the two draws.\<close>

definition drawn_position :: "rng \<Rightarrow> cell" where
  "drawn_position g =
     (fst (random_choice g [0, 1, 2]),
      fst (random_choice (snd (random_choice g [0, 1, 2 :: nat])) [0, 1, 2]))"

definition after_position :: "rng \<Rightarrow> rng" where
  "after_position g = rng_rest (rng_rest g)"

text \<open>
  Concrete inputs: a random source that makes the raw draws \<open>xs\<close> and then only zeros,
  a board given by its three rows, and the rows of a board.
\<close>

definition draws_of :: "nat list \<Rightarrow> rng" where
  "draws_of xs = (\<lambda>i. if i < length xs then xs ! i else 0)"

definition board_of :: "int list list \<Rightarrow> board" where
  "board_of rows =
     (\<lambda>(i, j). if i < length rows \<and> j < length (rows ! i) then rows ! i ! j else 0)"

definition rows_of :: "int grid \<Rightarrow> int list list" where
  "rows_of b = map (\<lambda>i. map (\<lambda>j. b (i, j)) [0 ..< 3]) [0 ..< 3]"

text \<open>
  Players other than the two of the program: one whose mark is the empty value, and two
  with marks 5 and 7.
\<close>

definition five_marked_player :: Player where
  "five_marked_player = \<lparr>name = ''Bot5'', property_value = 5\<rparr>"

definition seven_marked_player :: Player where
  "seven_marked_player = \<lparr>name = ''Bot7'', property_value = 7\<rparr>"

definition empty_marked_player :: Player where
  "empty_marked_player = \<lparr>name = ''Bot0'', property_value = 0\<rparr>"

text \<open>The board on which the mark \<open>w\<close> holds the first two cells of row 0.\<close>

definition two_in_row :: "int \<Rightarrow> board" where
  "two_in_row w = board_of [[w, w, 0], [0, 0, 0], [0, 0, 0]]"

text \<open>
  What \<open>choose_board\<close> returns when its \<open>k\<close>-th retry is the one that returns: the board,
  its position, both arrays and the rest of the random source.
\<close>

definition returned_by ::
  "rng \<Rightarrow> board grid \<Rightarrow> int grid \<Rightarrow> nat \<Rightarrow> board \<times> cell \<times> board grid \<times> int grid \<times> rng" where
  "returned_by g mb mr k =
     (let pos = drawn_position ((after_position ^^ k) g)
      in if is_board_complete mr
         then (create_board, pos, mb (pos := create_board), mr (pos := 0),
               (after_position ^^ Suc k) g)
         else (mb pos, pos, mb, mr, (after_position ^^ Suc k) g))"

text \<open>The position \<open>choose_board\<close> returned and the rows of the meta results after the call.\<close>

definition chosen :: "(board \<times> cell \<times> board grid \<times> int grid \<times> rng) option \<Rightarrow> (cell \<times> int list list) option" where
  "chosen r = map_option (\<lambda>(b, pos, mb', mr', g'). (pos, rows_of mr')) r"

text \<open>
  What a state of the bots' game shows: the rows of the meta results, the mark of the
  player who moved last, the position of the board that player moved on, the outcome of
  that move, and the rows of that board.
\<close>

definition game_summary :: "game \<Rightarrow> int list list \<times> int \<times> cell \<times> Status \<times> int list list" where
  "game_summary s =
     (rows_of (meta_board_results s), property_value (current_player s), current_board_pos s,
      status s, rows_of (meta_board s (current_board_pos s)))"

text \<open>The state after at most \<open>n\<close> rounds of the loop of \<open>play_meta_game_bots\<close>.\<close>

fun bots_rounds :: "nat \<Rightarrow> game \<Rightarrow> game option" where
  "bots_rounds 0 s = Some s"
| "bots_rounds (Suc n) s =
     (if while_condition s
      then (case bots_round s of None \<Rightarrow> None | Some s' \<Rightarrow> bots_rounds n s')
      else Some s)"

text \<open>
  The state in which the loop is after at most \<open>n\<close> rounds of the game played with
  the random source \<open>g\<close>.
\<close>

definition bots_game_after :: "nat \<Rightarrow> rng \<Rightarrow> game option" where
  "bots_game_after n g =
     (case next_move g fresh_meta_board create_board None of
        None \<Rightarrow> None
      | Some s0 \<Rightarrow> bots_rounds n s0)"

text \<open>
  The rows of the meta results once the outcome of the last move has been resolved, as
  the next round of the loop does first.
\<close>

definition resolved_results :: "game \<Rightarrow> int list list" where
  "resolved_results s =
     rows_of (snd (resolve_status (status s) (meta_board s) (meta_board_results s)
                     (current_board_pos s) (current_player s)))"

text \<open>
  Raw draws for a whole game of the two bots. The first draw picks \<open>P1\<close> to start. Then,
  for each column \<open>j\<close> of the meta grid, six moves: \<open>P1\<close> on board \<open>(0, j)\<close> and \<open>P2\<close> on
  board \<open>(1, j)\<close> in turn, three times. Each move starts with the two draws for the board
  position; the zeros after them are the draws of the searches and of the random cell
  (19 on an empty board, 17 on a board with one mark, 1 when the third mark wins).
\<close>

definition extra_move_draws :: "nat list" where
  "extra_move_draws =
     0 # concat (map (\<lambda>j. [0, j] @ replicate 19 0 @ [1, j] @ replicate 19 0
                          @ [0, j] @ replicate 17 0 @ [1, j] @ replicate 17 0
                          @ [0, j, 0] @ [1, j, 0]) [0, 1, 2])"

text \<open>
  The raw draws of one move: \<open>x\<close> and \<open>y\<close> for the board, \<open>n\<close> zeros for the picks of
  the searches, and \<open>c\<close> for the last pick.
\<close>

definition move_draws :: "nat \<Rightarrow> nat \<Rightarrow> nat \<Rightarrow> nat \<Rightarrow> nat list" where
  "move_draws x y n c = [x, y] @ replicate n 0 @ [c]"

text \<open>
  Raw draws for a game in which all nine meta cells get decided. \<open>P1\<close> starts and wins
  the boards \<open>(0, 0)\<close>, \<open>(0, 2)\<close>, \<open>(1, 1)\<close>, \<open>(2, 1)\<close>, \<open>(2, 2)\<close> in this order, each
  with three marks in row 0. \<open>P2\<close> first puts one mark into the corner of the boards
  \<open>(2, 2)\<close> and \<open>(2, 1)\<close>, then wins the boards \<open>(0, 1)\<close>, \<open>(1, 0)\<close>, \<open>(1, 2)\<close>,
  \<open>(2, 0)\<close>. The last entry is the move after the last win: it draws position \<open>(1, 1)\<close>.
\<close>

definition reset_draws :: "nat list" where
  "reset_draws =
     0 # concat
       [move_draws 0 0 18 0, move_draws 2 2 18 8, move_draws 0 0 16 0, move_draws 2 1 18 8,
        move_draws 0 0 0 0,
        move_draws 0 1 18 0, move_draws 0 2 18 0, move_draws 0 1 16 0, move_draws 0 2 16 0,
        move_draws 0 1 0 0, move_draws 0 2 0 0,
        move_draws 1 0 18 0, move_draws 1 1 18 0, move_draws 1 0 16 0, move_draws 1 1 16 0,
        move_draws 1 0 0 0, move_draws 1 1 0 0,
        move_draws 1 2 18 0, move_draws 2 1 16 0, move_draws 1 2 16 0, move_draws 2 1 14 0,
        move_draws 1 2 0 0, move_draws 2 1 0 0,
        move_draws 2 0 18 0, move_draws 2 2 16 0, move_draws 2 0 16 0, move_draws 2 2 14 0,
        move_draws 2 0 0 0, move_draws 2 2 0 0,
        move_draws 1 1 18 0]"

text \<open>The empty cells where placing the mark of \<open>player\<close> gives \<open>player\<close> a line.\<close>

definition winning_cells :: "board \<Rightarrow> Player \<Rightarrow> cell list" where
  "winning_cells b player =
     filter (\<lambda>c. check_winner (assign_cell b c player) player) (find_available_cells b)"

section \<open>Lemmas about boards and the searches\<close>

lemma upt3: "[0 ..< 3] = [0, 1, 2::nat]"
  by (simp add: upt_rec)

lemma check_winner_lines:
  "check_winner b p \<longleftrightarrow> (\<exists>l \<in> set winning_lines. \<forall>c \<in> set l. b c = property_value p)"
  by (simp add: check_winner_def np_all_eq_def upt3 winning_lines_def Let_def) 

lemma available_iff:
  "c \<in> set (find_available_cells b) \<longleftrightarrow> fst c < 3 \<and> snd c < 3 \<and> b c = 0"
  by (cases c) (auto simp: find_available_cells_def)

lemma pick_cell_randomly_None:
  "pick_cell_randomly g b = (None, g') \<Longrightarrow> find_available_cells b = [] \<and> g' = g"
  by (auto simp: pick_cell_randomly_def random_randint_def Let_def split: if_splits)

declare defensive_while.simps [simp del]

lemma defensive_while_None:
  "pick_cell_randomly g bc = (None, g') \<Longrightarrow> defensive_while g ib bc opp p = (False, ib, g')"
  by (subst defensive_while.simps) simp

lemma defensive_while_win:
  "pick_cell_randomly g bc = (Some c, g') \<Longrightarrow> check_winner (assign_cell bc c opp) opp \<Longrightarrow>
   defensive_while g ib bc opp p = (True, assign_cell ib c p, g')"
  by (subst defensive_while.simps) simp

lemma defensive_while_retry:
  "pick_cell_randomly g bc = (Some c, g') \<Longrightarrow> \<not> check_winner (assign_cell bc c opp) opp \<Longrightarrow>
   defensive_while g ib bc opp p
     = defensive_while g' ib (assign_cell (assign_cell bc c opp) c attempts_tracker) opp p"
  by (subst defensive_while.simps) simp

lemma tracker_overwrite:
  "assign_cell (assign_cell b c q) c attempts_tracker = b (c := 101)"
  by (simp add: assign_cell_def attempts_tracker_def)

lemma win_preserved:
  assumes c: "c \<in> set (find_available_cells bc)"
    and win: "check_winner (assign_cell bc c opp) opp"
    and c': "c' \<in> set (find_available_cells bc)"
    and nowin: "\<not> check_winner (assign_cell bc c' opp) opp"
  shows "c \<in> set (find_available_cells (bc (c' := 101)))
         \<and> check_winner (assign_cell (bc (c' := 101)) c opp) opp"
proof -
  let ?v = "property_value opp"
  from win nowin have neq: "c \<noteq> c'" by auto
  from c c' have zero: "bc c = 0" "bc c' = 0" by (simp_all add: available_iff)
  from win obtain l where l: "l \<in> set winning_lines"
    and line: "\<forall>x \<in> set l. (bc (c := ?v)) x = ?v"
    by (auto simp: check_winner_lines assign_cell_def)
  have notin: "c' \<notin> set l"
  proof
    assume "c' \<in> set l"
    with line neq zero have "?v = 0" by auto
    with zero have "assign_cell bc c opp = bc" "assign_cell bc c' opp = bc"
      by (auto simp: assign_cell_def)
    with win nowin show False by simp
  qed
  have "\<forall>x \<in> set l. (bc (c' := 101, c := ?v)) x = ?v"
    using line notin by auto
  with l have "check_winner (assign_cell (bc (c' := 101)) c opp) opp"
    unfolding check_winner_lines assign_cell_def by blast
  moreover from c neq have "c \<in> set (find_available_cells (bc (c' := 101)))"
    by (simp add: available_iff)
  ultimately show ?thesis by simp
qed

lemma search_complete:
  assumes "\<exists>c \<in> set (find_available_cells bc). check_winner (assign_cell bc c opp) opp"
  shows "fst (defensive_while g ib bc opp p)"
  using assms
proof (induction g ib bc opp p rule: defensive_while.induct)
  case (1 g ib bc opp p)
  obtain x g' where pick: "pick_cell_randomly g bc = (x, g')"
    by (cases "pick_cell_randomly g bc")
  show ?case
  proof (cases x)
    case None
    with pick "1.prems" show ?thesis by (auto dest: pick_cell_randomly_None)
  next
    case (Some c')
    show ?thesis
    proof (cases "check_winner (assign_cell bc c' opp) opp")
      case True
      with pick Some show ?thesis by (simp add: defensive_while_win)
    next
      case False
      from pick Some have c': "c' \<in> set (find_available_cells bc)"
        by (auto dest: pick_cell_randomly_Some)
      from "1.prems" obtain c where "c \<in> set (find_available_cells bc)"
        "check_winner (assign_cell bc c opp) opp" by blast
      from win_preserved[OF this c' False]
      have "\<exists>c \<in> set (find_available_cells (bc (c' := 101))).
              check_winner (assign_cell (bc (c' := 101)) c opp) opp" by blast
      with "1.IH"[OF pick[symmetric] Some refl False]
      have "fst (defensive_while g' ib (bc (c' := 101)) opp p)"
        unfolding tracker_overwrite by blast
      with defensive_while_retry[OF pick[unfolded Some] False, of ib p] show ?thesis
        by (simp only: tracker_overwrite)
    qed
  qed
qed

lemma marked_refl: "marked b b"
  by (simp add: marked_def)

lemma marked_step:
  "marked ib bc \<Longrightarrow> c \<in> set (find_available_cells bc) \<Longrightarrow> marked ib (bc (c := 101))"
  unfolding marked_def available_iff by (metis fun_upd_apply)

lemma marked_available:
  "marked ib bc \<Longrightarrow> c \<in> set (find_available_cells bc) \<Longrightarrow> c \<in> set (find_available_cells ib)"
  unfolding marked_def available_iff by metis

lemma win_transfer:
  assumes "marked ib bc" and "property_value opp \<noteq> 101"
    and "check_winner (assign_cell bc c opp) opp"
  shows "check_winner (assign_cell ib c opp) opp"
proof -
  let ?v = "property_value opp"
  from assms(3) obtain l where l: "l \<in> set winning_lines"
    and line: "\<forall>x \<in> set l. (bc (c := ?v)) x = ?v"
    by (auto simp: check_winner_lines assign_cell_def)
  have "(ib (c := ?v)) x = ?v" if "x \<in> set l" for x
  proof (cases "x = c")
    case True then show ?thesis by simp
  next
    case False
    with line that have "bc x = ?v" by auto
    with assms(1,2) have "ib x = ?v" by (metis marked_def)
    with False show ?thesis by simp
  qed
  with l show ?thesis unfolding check_winner_lines assign_cell_def by blast
qed

lemma search_frame:
  assumes "marked ib bc" and "defensive_while g ib bc opp p = (r, ib', g')"
  shows "(if r then \<exists>c \<in> set (find_available_cells ib).
                     ib' = assign_cell ib c p
                     \<and> (property_value opp \<noteq> 101 \<longrightarrow> check_winner (assign_cell ib c opp) opp)
          else ib' = ib)"
  using assms
proof (induction g ib bc opp p rule: defensive_while.induct)
  case (1 g ib bc opp p)
  obtain x g1 where pick: "pick_cell_randomly g bc = (x, g1)"
    by (cases "pick_cell_randomly g bc")
  show ?case
  proof (cases x)
    case None
    with pick "1.prems" show ?thesis by (auto simp: defensive_while_None)
  next
    case (Some c')
    from pick Some have c': "c' \<in> set (find_available_cells bc)"
      by (auto dest: pick_cell_randomly_Some)
    show ?thesis
    proof (cases "check_winner (assign_cell bc c' opp) opp")
      case True
      with pick Some "1.prems" have "r" "ib' = assign_cell ib c' p"
        by (simp_all add: defensive_while_win)
      moreover from c' "1.prems"(1) have "c' \<in> set (find_available_cells ib)"
        by (rule marked_available[rotated])
      moreover have "property_value opp \<noteq> 101 \<Longrightarrow> check_winner (assign_cell ib c' opp) opp"
        using win_transfer[OF "1.prems"(1) _ True] by simp
      ultimately show ?thesis by auto
    next
      case False
      from pick Some False "1.prems"(2)
      have run: "defensive_while g1 ib (assign_cell (assign_cell bc c' opp) c' attempts_tracker) opp p
              = (r, ib', g')"
        by (simp add: defensive_while_retry)
      have "marked ib (assign_cell (assign_cell bc c' opp) c' attempts_tracker)"
        using marked_step[OF "1.prems"(1) c'] by (simp add: tracker_overwrite)
      from "1.IH"[OF pick[symmetric] Some refl False this run] show ?thesis .
    qed
  qed
qed

declare offensive_while.simps [simp del]

lemma offensive_while_eq:
  "offensive_while g ib bc p = defensive_while g ib bc p p"
proof (induction g ib bc p rule: offensive_while.induct)
  case (1 g ib bc p)
  show ?case
    by (subst offensive_while.simps, subst defensive_while.simps)
       (auto simp: Let_def "1.IH" split: prod.splits option.splits)
qed

lemma search_cases:
  obtains (found) c g' where "c \<in> set (find_available_cells b)"
      "defensive_while g b b opp p = (True, assign_cell b c p, g')"
      "property_value opp \<noteq> 101 \<longrightarrow> check_winner (assign_cell b c opp) opp"
  | (none) g' where "defensive_while g b b opp p = (False, b, g')"
      "\<not> (\<exists>c \<in> set (find_available_cells b). check_winner (assign_cell b c opp) opp)"
proof -
  obtain r b' g' where run: "defensive_while g b b opp p = (r, b', g')"
    by (cases "defensive_while g b b opp p")
  show thesis
  proof (cases r)
    case True
    with search_frame[OF marked_refl run] found run show thesis by auto
  next
    case False
    with search_frame[OF marked_refl run] have "b' = b" by simp
    moreover from False run search_complete[of b opp g b p]
    have "\<not> (\<exists>c \<in> set (find_available_cells b). check_winner (assign_cell b c opp) opp)"
      by auto
    ultimately show thesis using none run False by simp
  qed
qed

lemma random_move_cases:
  obtains (placed) c g' where "c \<in> set (find_available_cells b)"
      "random_move g b p = (True, assign_cell b c p, g')"
  | (full) "find_available_cells b = []" "random_move g b p = (False, b, g)"
proof (cases "pick_cell_randomly g b")
  case (Pair x g')
  show thesis
  proof (cases x)
    case None
    with Pair full show thesis
      by (auto simp: random_move_def dest: pick_cell_randomly_None)
  next
    case (Some c)
    with Pair have "c \<in> set (find_available_cells b)"
      by (auto dest: pick_cell_randomly_Some)
    moreover from Pair Some have "random_move g b p = (True, assign_cell b c p, g')"
      by (simp add: random_move_def)
    ultimately show thesis by (rule placed)
  qed
qed

lemma opponent_not_tracker:
  "property_value (if property_value p = 1 then P2 else P1) \<noteq> 101"
  by (simp add: P1_def P2_def)

lemma fill_cell_cases:
  fixes p :: Player
  defines "opp \<equiv> (if property_value p = 1 then P2 else P1)"
  obtains
    (offense) c g' where "c \<in> set (find_available_cells b)"
      "fill_cell g b p = (OFFENSE, assign_cell b c p, g')"
      "property_value p \<noteq> 101 \<longrightarrow> check_winner (assign_cell b c p) p"
  | (defense) c g' where "c \<in> set (find_available_cells b)"
      "fill_cell g b p = (DEFENSE, assign_cell b c p, g')"
      "\<not> (\<exists>c \<in> set (find_available_cells b). check_winner (assign_cell b c p) p)"
      "check_winner (assign_cell b c opp) opp"
  | (random) c g' where "c \<in> set (find_available_cells b)"
      "fill_cell g b p = (RANDOM, assign_cell b c p, g')"
      "\<not> (\<exists>c \<in> set (find_available_cells b). check_winner (assign_cell b c p) p)"
      "\<not> (\<exists>c \<in> set (find_available_cells b). check_winner (assign_cell b c opp) opp)"
  | (full) g' where "find_available_cells b = []" "fill_cell g b p = (FULL, b, g')"
proof (cases rule: search_cases[where g=g and b=b and opp=p and p=p])
  case (found c g')
  then show thesis
    by (intro offense[of c g']) (simp_all add: fill_cell_def offensive_move_def offensive_while_eq)
next
  case off: (none g1)
  show thesis
  proof (cases rule: search_cases[where g=g1 and b=b and opp=opp and p=p])
    case (found c g')
    with off show thesis
      using opponent_not_tracker[of p]
      by (intro defense[of c g'])
         (simp_all add: fill_cell_def offensive_move_def offensive_while_eq defensive_move_def opp_def)
  next
    case def: (none g2)
    show thesis
    proof (cases rule: random_move_cases[where g=g2 and b=b and p=p])
      case (placed c g')
      with off def show thesis
        by (intro random[of c g'])
           (simp_all add: fill_cell_def offensive_move_def offensive_while_eq defensive_move_def opp_def)
    next
      case full': full
      with off def show thesis
        by (intro full[of g2])
           (simp_all add: fill_cell_def offensive_move_def offensive_while_eq defensive_move_def opp_def)
    qed
  qed
qed

lemma fill_cell_one_cell:
  "fst (snd (fill_cell g b p)) = b
      \<or> (\<exists>c \<in> set (find_available_cells b). fst (snd (fill_cell g b p)) = b (c := property_value p))"
    by (cases rule: fill_cell_cases[where g=g and b=b and p=p]) (auto simp: assign_cell_def)

lemma set_winning_cells:
  "set (winning_cells b p)
     = {c \<in> set (find_available_cells b). check_winner (assign_cell b c p) p}"
  by (auto simp: winning_cells_def)

lemma winning_cells_empty_iff:
  "winning_cells b p = [] \<longleftrightarrow>
     \<not> (\<exists>c \<in> set (find_available_cells b). check_winner (assign_cell b c p) p)"
  by (auto simp: winning_cells_def filter_empty_conv)

lemma defensive_while_outcome:
  assumes "property_value opp \<noteq> 101"
  shows "(fst (defensive_while g b b opp p) \<longleftrightarrow> winning_cells b opp \<noteq> [])
   \<and> (fst (defensive_while g b b opp p) \<longrightarrow>
        (\<exists>c \<in> set (winning_cells b opp).
           fst (snd (defensive_while g b b opp p)) = assign_cell b c p))
   \<and> (\<not> fst (defensive_while g b b opp p) \<longrightarrow> fst (snd (defensive_while g b b opp p)) = b)"
proof (cases rule: search_cases[where g=g and b=b and p=p and opp=opp])
  case (found c g')
  from found assms have c: "c \<in> set (winning_cells b opp)"
    by (simp add: set_winning_cells)
  then have ne: "winning_cells b opp \<noteq> []"
    by (cases "winning_cells b opp") simp_all
  have ex: "\<exists>c' \<in> set (winning_cells b opp). assign_cell b c p = assign_cell b c' p"
    using c by (intro bexI[of _ c]) simp_all
  show ?thesis
    unfolding found(2) using ne ex by simp
next
  case (none g')
  from none(2) have "winning_cells b opp = []"
    by (simp add: winning_cells_empty_iff)
  then show ?thesis
    unfolding none(1) by simp
qed

lemma check_winner_mark_only:
  "property_value q = property_value q' \<Longrightarrow>
   check_winner (assign_cell b c q) q = check_winner (assign_cell b c q') q'"
  by (simp add: check_winner_def assign_cell_def)

lemma winning_cells_mark_only:
  "property_value q = property_value q' \<Longrightarrow> winning_cells b q = winning_cells b q'"
  by (simp add: winning_cells_def check_winner_def assign_cell_def)

lemma line_has_other_cell:
  "l \<in> set winning_lines \<Longrightarrow> \<exists>x \<in> set l. x \<noteq> c"
  by (auto simp: winning_lines_def)

lemma no_mark_no_winning_cell:
  assumes "\<forall>x. b x \<noteq> property_value q"
  shows "winning_cells b q = []"
proof -
  have "\<not> check_winner (assign_cell b c q) q" for c
  proof
    assume "check_winner (assign_cell b c q) q"
    then obtain l where l: "l \<in> set winning_lines"
      and line: "\<forall>x \<in> set l. (b (c := property_value q)) x = property_value q"
      by (auto simp: check_winner_lines assign_cell_def)
    from line_has_other_cell[OF l, of c] obtain x where "x \<in> set l" "x \<noteq> c" by blast
    with line have "b x = property_value q" by auto
    with assms show False by blast
  qed
  then show ?thesis by (simp add: winning_cells_empty_iff)
qed

lemma two_in_row_cells:
  "two_in_row w x = w \<or> two_in_row w x = 0"
proof (cases x)
  case (Pair i j)
  have "i = 0 \<or> i = 1 \<or> i = 2 \<or> 3 \<le> i" by arith
  moreover have "j = 0 \<or> j = 1 \<or> j = 2 \<or> 3 \<le> j" by arith
  ultimately show ?thesis
    unfolding Pair two_in_row_def board_of_def by (elim disjE) simp_all
qed

lemma two_in_row_threat:
  "(0, 2) \<in> set (winning_cells (two_in_row (property_value q)) q)"
  by (simp add: set_winning_cells available_iff check_winner_lines winning_lines_def
        two_in_row_def board_of_def assign_cell_def)

lemma simulated_mark:
  "property_value (if property_value p = 1 then P2 else P1) = 1
   \<or> property_value (if property_value p = 1 then P2 else P1) = - 1"
  by (simp add: P1_def P2_def)

section \<open>Claims about single boards\<close>

text \<open>
  Claim C1. For every board and for each of the two players of the program (marks 1 and
  -1): if some empty cell of the board wins for the player (placing the player's mark
  there makes \<open>check_winner\<close> true), then \<open>fill_cell\<close> reports \<open>OFFENSE\<close>, the winning
  move, and writes the player's mark into such a cell of the real board, so that
  \<open>check_winner\<close> holds for the player on the real board afterwards, whatever the random
  source draws.
\<close>

theorem fill_cell_winning_move:
  assumes "property_value p = 1 \<or> property_value p = - 1"
    and "\<exists>c \<in> set (find_available_cells b). check_winner (assign_cell b c p) p"
  shows "fst (fill_cell g b p) = OFFENSE
         \<and> (\<exists>c \<in> set (find_available_cells b).
               fst (snd (fill_cell g b p)) = assign_cell b c p
               \<and> check_winner (assign_cell b c p) p)
         \<and> check_winner (fst (snd (fill_cell g b p))) p"
proof -
  from assms(1) have "property_value p \<noteq> 101" by auto
  with assms(2) show ?thesis
    by (cases rule: fill_cell_cases[where g=g and b=b and p=p]) auto
qed

text \<open>
  The theorem at the board with rows \<open>1 1 0\<close>, \<open>0 -1 0\<close>, \<open>-1 0 0\<close> and player \<open>P1\<close>, and
  at the board with rows \<open>1 -1 0\<close>, \<open>0 -1 1\<close>, \<open>1 0 0\<close> and player \<open>P2\<close>, who completes
  column 1.
\<close>

theorem fill_cell_winning_move_witness:
  "(property_value P1 = 1 \<or> property_value P1 = - 1)
   \<and> (\<exists>c \<in> set (find_available_cells (board_of [[1, 1, 0], [0, - 1, 0], [- 1, 0, 0]])).
         check_winner (assign_cell (board_of [[1, 1, 0], [0, - 1, 0], [- 1, 0, 0]]) c P1) P1)
   \<and> fst (fill_cell (draws_of [3, 1, 4]) (board_of [[1, 1, 0], [0, - 1, 0], [- 1, 0, 0]]) P1) = OFFENSE
   \<and> check_winner
        (fst (snd (fill_cell (draws_of [3, 1, 4]) (board_of [[1, 1, 0], [0, - 1, 0], [- 1, 0, 0]]) P1))) P1
   \<and> (property_value P2 = 1 \<or> property_value P2 = - 1)
   \<and> (\<exists>c \<in> set (find_available_cells (board_of [[1, - 1, 0], [0, - 1, 1], [1, 0, 0]])).
         check_winner (assign_cell (board_of [[1, - 1, 0], [0, - 1, 1], [1, 0, 0]]) c P2) P2)
   \<and> fst (fill_cell (draws_of [5, 0, 2]) (board_of [[1, - 1, 0], [0, - 1, 1], [1, 0, 0]]) P2) = OFFENSE
   \<and> rows_of (fst (snd (fill_cell (draws_of [5, 0, 2]) (board_of [[1, - 1, 0], [0, - 1, 1], [1, 0, 0]]) P2)))
       = [[1, - 1, 0], [0, - 1, 1], [1, - 1, 0]]"
proof -
  define b1 where "b1 = board_of [[1, 1, 0], [0, - 1, 0], [- 1, 0, 0]]"
  define b2 where "b2 = board_of [[1, - 1, 0], [0, - 1, 1], [1, 0, 0]]"
  have v1: "property_value P1 = 1 \<or> property_value P1 = - 1"
    by (simp add: P1_def)
  have v2: "property_value P2 = 1 \<or> property_value P2 = - 1"
    by (simp add: P2_def)
  have w1: "\<exists>c \<in> set (find_available_cells b1). check_winner (assign_cell b1 c P1) P1"
    unfolding b1_def by code_simp
  have w2: "\<exists>c \<in> set (find_available_cells b2). check_winner (assign_cell b2 c P2) P2"
    unfolding b2_def by code_simp
  have rows: "rows_of (fst (snd (fill_cell (draws_of [5, 0, 2]) b2 P2)))
                = [[1, - 1, 0], [0, - 1, 1], [1, - 1, 0]]"
    unfolding b2_def by code_simp
  from fill_cell_winning_move[OF v1 w1, of "draws_of [3, 1, 4]"]
  have r1: "fst (fill_cell (draws_of [3, 1, 4]) b1 P1) = OFFENSE"
    and r2: "check_winner (fst (snd (fill_cell (draws_of [3, 1, 4]) b1 P1))) P1"
    by simp_all
  from fill_cell_winning_move[OF v2 w2, of "draws_of [5, 0, 2]"]
  have r3: "fst (fill_cell (draws_of [5, 0, 2]) b2 P2) = OFFENSE"
    by (elim conjE)
  from v1 w1 r1 r2 v2 w2 r3 rows show ?thesis
    unfolding b1_def b2_def by (intro conjI)
qed

text \<open>
  Claim C2. For every board, with the acting player and the opponent holding the marks
  1 and -1 of the program's two players (either way round): if no empty cell wins for
  the acting player but some empty cell wins for the opponent, then \<open>fill_cell\<close> reports
  \<open>DEFENSE\<close>, the blocking move, and writes the acting player's mark into a cell where
  the opponent's mark would have made \<open>check_winner\<close> true for the opponent, whatever
  the random source draws.
\<close>

theorem fill_cell_blocking_move:
  assumes "(property_value p = 1 \<and> property_value opp = - 1)
           \<or> (property_value p = - 1 \<and> property_value opp = 1)"
    and "\<not> (\<exists>c \<in> set (find_available_cells b). check_winner (assign_cell b c p) p)"
    and "\<exists>c \<in> set (find_available_cells b). check_winner (assign_cell b c opp) opp"
  shows "fst (fill_cell g b p) = DEFENSE
         \<and> (\<exists>c \<in> set (find_available_cells b).
               fst (snd (fill_cell g b p)) = assign_cell b c p
               \<and> check_winner (assign_cell b c opp) opp)"
proof -
  let ?sim = "if property_value p = 1 then P2 else P1"
  from assms(1) have not_tracker: "property_value p \<noteq> 101"
    by auto
  from assms(1) have "property_value opp = property_value ?sim"
    by (auto simp: P1_def P2_def)
  then have same: "check_winner (assign_cell b c opp) opp = check_winner (assign_cell b c ?sim) ?sim"
    for c by (rule check_winner_mark_only)
  show ?thesis
  proof (cases rule: fill_cell_cases[where g=g and b=b and p=p])
    case (offense c g')
    from offense(1,3) not_tracker have "\<exists>c \<in> set (find_available_cells b). check_winner (assign_cell b c p) p"
      by (intro bexI[of _ c]) simp_all
    with assms(2) show ?thesis by simp
  next
    case (defense c g')
    from defense(4) have "check_winner (assign_cell b c opp) opp"
      by (simp only: same)
    with defense(1) have "\<exists>c' \<in> set (find_available_cells b).
               assign_cell b c p = assign_cell b c' p \<and> check_winner (assign_cell b c' opp) opp"
      by (intro bexI[of _ c]) simp_all
    then show ?thesis unfolding defense(2) by simp
  next
    case (random c g')
    from random(4) assms(3) have False
      by (simp only: same)
    then show ?thesis ..
  next
    case (full g')
    with assms(3) show ?thesis by simp
  qed
qed

text \<open>
  The theorem at the board whose row 1 is \<open>-1 -1 0\<close>, all else empty, with \<open>P1\<close> acting:
  the mark goes to \<open>(1, 2)\<close>; and at a board where \<open>P1\<close> holds \<open>(0, 0)\<close> and \<open>(1, 1)\<close>,
  with \<open>P2\<close> acting: the mark goes to \<open>(2, 2)\<close>.
\<close>

theorem fill_cell_blocking_move_witness:
  "((property_value P1 = 1 \<and> property_value P2 = - 1)
      \<or> (property_value P1 = - 1 \<and> property_value P2 = 1)) = True
   \<and> \<not> (\<exists>c \<in> set (find_available_cells (board_of [[0, 0, 0], [- 1, - 1, 0], [0, 0, 0]])).
         check_winner (assign_cell (board_of [[0, 0, 0], [- 1, - 1, 0], [0, 0, 0]]) c P1) P1)
   \<and> (\<exists>c \<in> set (find_available_cells (board_of [[0, 0, 0], [- 1, - 1, 0], [0, 0, 0]])).
         check_winner (assign_cell (board_of [[0, 0, 0], [- 1, - 1, 0], [0, 0, 0]]) c P2) P2)
   \<and> fst (fill_cell (draws_of [2, 7, 1, 8]) (board_of [[0, 0, 0], [- 1, - 1, 0], [0, 0, 0]]) P1) = DEFENSE
   \<and> rows_of (fst (snd (fill_cell (draws_of [2, 7, 1, 8]) (board_of [[0, 0, 0], [- 1, - 1, 0], [0, 0, 0]]) P1)))
       = [[0, 0, 0], [- 1, - 1, 1], [0, 0, 0]]
   \<and> ((property_value P2 = 1 \<and> property_value P1 = - 1)
      \<or> (property_value P2 = - 1 \<and> property_value P1 = 1)) = True
   \<and> \<not> (\<exists>c \<in> set (find_available_cells (board_of [[1, 0, 0], [0, 1, - 1], [0, 0, 0]])).
         check_winner (assign_cell (board_of [[1, 0, 0], [0, 1, - 1], [0, 0, 0]]) c P2) P2)
   \<and> (\<exists>c \<in> set (find_available_cells (board_of [[1, 0, 0], [0, 1, - 1], [0, 0, 0]])).
         check_winner (assign_cell (board_of [[1, 0, 0], [0, 1, - 1], [0, 0, 0]]) c P1) P1)
   \<and> fst (fill_cell (draws_of [6, 3, 3, 0, 5]) (board_of [[1, 0, 0], [0, 1, - 1], [0, 0, 0]]) P2) = DEFENSE
   \<and> rows_of (fst (snd (fill_cell (draws_of [6, 3, 3, 0, 5]) (board_of [[1, 0, 0], [0, 1, - 1], [0, 0, 0]]) P2)))
       = [[1, 0, 0], [0, 1, - 1], [0, 0, - 1]]"
proof -
  define b1 where "b1 = board_of [[0, 0, 0], [- 1, - 1, 0], [0, 0, 0]]"
  define b2 where "b2 = board_of [[1, 0, 0], [0, 1, - 1], [0, 0, 0]]"
  have m1: "(property_value P1 = 1 \<and> property_value P2 = - 1)
             \<or> (property_value P1 = - 1 \<and> property_value P2 = 1)"
    by (simp add: P1_def P2_def)
  have m2: "(property_value P2 = 1 \<and> property_value P1 = - 1)
             \<or> (property_value P2 = - 1 \<and> property_value P1 = 1)"
    by (simp add: P1_def P2_def)
  have n1: "\<not> (\<exists>c \<in> set (find_available_cells b1). check_winner (assign_cell b1 c P1) P1)"
    unfolding b1_def by code_simp
  have t1: "\<exists>c \<in> set (find_available_cells b1). check_winner (assign_cell b1 c P2) P2"
    unfolding b1_def by code_simp
  have n2: "\<not> (\<exists>c \<in> set (find_available_cells b2). check_winner (assign_cell b2 c P2) P2)"
    unfolding b2_def by code_simp
  have t2: "\<exists>c \<in> set (find_available_cells b2). check_winner (assign_cell b2 c P1) P1"
    unfolding b2_def by code_simp
  have rows1: "rows_of (fst (snd (fill_cell (draws_of [2, 7, 1, 8]) b1 P1)))
                = [[0, 0, 0], [- 1, - 1, 1], [0, 0, 0]]"
    unfolding b1_def by code_simp
  have rows2: "rows_of (fst (snd (fill_cell (draws_of [6, 3, 3, 0, 5]) b2 P2)))
                = [[1, 0, 0], [0, 1, - 1], [0, 0, - 1]]"
    unfolding b2_def by code_simp
  from fill_cell_blocking_move[OF m1 n1 t1, of "draws_of [2, 7, 1, 8]"]
  have r1: "fst (fill_cell (draws_of [2, 7, 1, 8]) b1 P1) = DEFENSE" by (elim conjE)
  from fill_cell_blocking_move[OF m2 n2 t2, of "draws_of [6, 3, 3, 0, 5]"]
  have r2: "fst (fill_cell (draws_of [6, 3, 3, 0, 5]) b2 P2) = DEFENSE" by (elim conjE)
  from m1 m2 have e1: "((property_value P1 = 1 \<and> property_value P2 = - 1)
      \<or> (property_value P1 = - 1 \<and> property_value P2 = 1)) = True"
    and e2: "((property_value P2 = 1 \<and> property_value P1 = - 1)
      \<or> (property_value P2 = - 1 \<and> property_value P1 = 1)) = True"
    by simp_all
  from e1 n1 t1 r1 rows1 e2 n2 t2 r2 rows2 show ?thesis
    unfolding b1_def b2_def by (intro conjI)
qed

text \<open>
  Claim C3. \<open>check_winner\<close> compares raw values and has no guard for the empty mark:
  for a player whose mark is 0 it is true exactly when some row, column or diagonal of
  the board is entirely 0.
\<close>

theorem check_winner_empty_mark:
  "property_value p = 0 \<Longrightarrow>
   check_winner b p \<longleftrightarrow> (\<exists>l \<in> set winning_lines. \<forall>c \<in> set l. b c = 0)"
  by (simp add: check_winner_lines)

text \<open>
  The theorem at two boards: one whose middle row is empty, one where every line holds
  a mark.
\<close>

theorem check_winner_empty_mark_witness:
  "property_value empty_marked_player = 0
   \<and> check_winner (board_of [[1, - 1, 1], [0, 0, 0], [- 1, 1, - 1]]) empty_marked_player
   \<and> \<not> check_winner (board_of [[1, 0, 0], [0, - 1, 0], [0, 0, 1]]) empty_marked_player"
proof -
  have v: "property_value empty_marked_player = 0"
    by (simp add: empty_marked_player_def)
  show ?thesis
    using check_winner_empty_mark[OF v, of "board_of [[1, - 1, 1], [0, 0, 0], [- 1, 1, - 1]]"]
      check_winner_empty_mark[OF v, of "board_of [[1, 0, 0], [0, - 1, 0], [0, 0, 1]]"] v
    by (simp add: winning_lines_def board_of_def)
qed

text \<open>On a fresh board \<open>check_winner\<close> is true for the empty mark.\<close>

theorem check_winner_empty_mark_counterexample:
  "check_winner create_board empty_marked_player"
  by (simp add: check_winner_def create_board_def np_all_eq_def upt3 empty_marked_player_def)

text \<open>
  Claim C7. \<open>fill_cell\<close> returns \<open>FULL\<close> if and only if the board has no empty cell; on
  a board with an empty cell it returns \<open>OFFENSE\<close>, \<open>DEFENSE\<close> or \<open>RANDOM\<close>; and when it
  returns \<open>FULL\<close> the real board is unchanged.
\<close>

theorem fill_cell_full_iff:
  "(fst (fill_cell g b p) = FULL \<longleftrightarrow> find_available_cells b = [])
   \<and> (find_available_cells b \<noteq> [] \<longrightarrow> fst (fill_cell g b p) \<in> {OFFENSE, DEFENSE, RANDOM})
   \<and> (fst (fill_cell g b p) = FULL \<longrightarrow> fst (snd (fill_cell g b p)) = b)"
  by (cases rule: fill_cell_cases[where g=g and b=b and p=p]) auto

text \<open>The theorem at a full board without a line, and at that board with one cell freed.\<close>

theorem fill_cell_full_iff_witness:
  "find_available_cells (board_of [[1, - 1, 1], [1, - 1, - 1], [- 1, 1, 1]]) = []
   \<and> fst (fill_cell (draws_of [4, 2]) (board_of [[1, - 1, 1], [1, - 1, - 1], [- 1, 1, 1]]) P1) = FULL
   \<and> fst (snd (fill_cell (draws_of [4, 2]) (board_of [[1, - 1, 1], [1, - 1, - 1], [- 1, 1, 1]]) P1))
       = board_of [[1, - 1, 1], [1, - 1, - 1], [- 1, 1, 1]]
   \<and> find_available_cells (board_of [[1, - 1, 1], [1, - 1, - 1], [- 1, 1, 0]]) \<noteq> []
   \<and> fst (fill_cell (draws_of [4, 2]) (board_of [[1, - 1, 1], [1, - 1, - 1], [- 1, 1, 0]]) P1)
       \<in> {OFFENSE, DEFENSE, RANDOM}"
proof -
  have full: "find_available_cells (board_of [[1, - 1, 1], [1, - 1, - 1], [- 1, 1, 1]]) = []"
    by code_simp
  have free: "find_available_cells (board_of [[1, - 1, 1], [1, - 1, - 1], [- 1, 1, 0]]) \<noteq> []"
    by code_simp
  show ?thesis
    using fill_cell_full_iff[of "draws_of [4, 2]" "board_of [[1, - 1, 1], [1, - 1, - 1], [- 1, 1, 1]]" P1]
      fill_cell_full_iff[of "draws_of [4, 2]" "board_of [[1, - 1, 1], [1, - 1, - 1], [- 1, 1, 0]]" P1]
      full free
    by simp
qed

text \<open>
  Claim C8. One call of \<open>fill_cell\<close> changes at most one cell of the real board: the
  board afterwards is the board before, or the board before with the player's mark
  written into one cell that was empty; any two cells that changed are the same cell,
  and a cell that changed was empty before.
\<close>

theorem fill_cell_frame:
  "(fst (snd (fill_cell g b p)) = b
      \<or> (\<exists>c \<in> set (find_available_cells b). fst (snd (fill_cell g b p)) = b (c := property_value p)))
   \<and> (\<forall>c1 c2. fst (snd (fill_cell g b p)) c1 \<noteq> b c1 \<longrightarrow>
                fst (snd (fill_cell g b p)) c2 \<noteq> b c2 \<longrightarrow> c1 = c2)
   \<and> (\<forall>c. fst (snd (fill_cell g b p)) c \<noteq> b c \<longrightarrow> b c = 0 \<and> fst c < 3 \<and> snd c < 3)"
proof -
  define b' where "b' = fst (snd (fill_cell g b p))"
  have one: "b' = b \<or> (\<exists>c \<in> set (find_available_cells b). b' = b (c := property_value p))"
    unfolding b'_def by (rule fill_cell_one_cell)
  have two: "c1 = c2" if "b' c1 \<noteq> b c1" "b' c2 \<noteq> b c2" for c1 c2
    using one that by (metis fun_upd_apply)
  have three: "b c = 0 \<and> fst c < 3 \<and> snd c < 3" if "b' c \<noteq> b c" for c
    using one that by (metis fun_upd_apply available_iff)
  from one two three show ?thesis unfolding b'_def by blast
qed

text \<open>
  The theorem at a board where \<open>P2\<close> completes the anti-diagonal at \<open>(2, 0)\<close>: that cell
  was empty, and cell \<open>(0, 1)\<close> is as before.
\<close>

theorem fill_cell_frame_witness:
  "rows_of (fst (snd (fill_cell (draws_of [5, 1, 7]) (board_of [[1, 0, - 1], [0, - 1, 0], [0, 0, 1]]) P2)))
     = [[1, 0, - 1], [0, - 1, 0], [- 1, 0, 1]]
   \<and> fst (snd (fill_cell (draws_of [5, 1, 7]) (board_of [[1, 0, - 1], [0, - 1, 0], [0, 0, 1]]) P2)) (2, 0)
       \<noteq> board_of [[1, 0, - 1], [0, - 1, 0], [0, 0, 1]] (2, 0)
   \<and> board_of [[1, 0, - 1], [0, - 1, 0], [0, 0, 1]] (2, 0) = 0
   \<and> fst (snd (fill_cell (draws_of [5, 1, 7]) (board_of [[1, 0, - 1], [0, - 1, 0], [0, 0, 1]]) P2)) (0, 1)
       = board_of [[1, 0, - 1], [0, - 1, 0], [0, 0, 1]] (0, 1)"
proof -
  define b where "b = board_of [[1, 0, - 1], [0, - 1, 0], [0, 0, 1]]"
  define b' where "b' = fst (snd (fill_cell (draws_of [5, 1, 7]) b P2))"
  have rows: "rows_of b' = [[1, 0, - 1], [0, - 1, 0], [- 1, 0, 1]]"
    unfolding b'_def b_def by code_simp
  have old: "b (2, 0) = 0"
    by (simp add: b_def board_of_def)
  have new: "b' (2, 0) = - 1"
    using rows by (simp add: rows_of_def upt3)
  from old new have changed: "b' (2, 0) \<noteq> b (2, 0)"
    by simp
  have one: "\<forall>c1 c2. b' c1 \<noteq> b c1 \<longrightarrow> b' c2 \<noteq> b c2 \<longrightarrow> c1 = c2"
    using fill_cell_frame[of "draws_of [5, 1, 7]" b P2] unfolding b'_def by (elim conjE)
  have same: "b' (0, 1) = b (0, 1)"
  proof (rule ccontr)
    assume "b' (0, 1) \<noteq> b (0, 1)"
    with one[rule_format, of "(0, 1)" "(2, 0)"] changed
    have "((0::nat), (1::nat)) = ((2::nat), (0::nat))" by simp
    then show False by simp
  qed
  from rows old changed same show ?thesis
    unfolding b'_def b_def by (intro conjI)
qed


text \<open>
  Claim C10. The opponent whose win \<open>defensive_move\<close> looks for depends only on whether
  the acting player's mark is 1: it is \<open>P2\<close> if so and \<open>P1\<close> otherwise. The search
  succeeds exactly when some empty cell wins for that player, it then writes the acting
  player's mark into such a cell, and otherwise it leaves the board as it is. So the
  blocking move is right against every opponent \<open>q\<close> whose mark is the mark looked for
  (the winning cells are the same), whatever the acting player's mark; and against an
  opponent with any other mark it is not: on the board where that opponent holds the
  first two cells of row 0, the cell \<open>(0, 2)\<close> wins for the opponent and
  \<open>defensive_move\<close> does not block.
\<close>

theorem defensive_move_simulated_opponent:
  "(fst (defensive_move g b p) \<longleftrightarrow>
      winning_cells b (if property_value p = 1 then P2 else P1) \<noteq> [])
   \<and> (fst (defensive_move g b p) \<longrightarrow>
        (\<exists>c \<in> set (winning_cells b (if property_value p = 1 then P2 else P1)).
           fst (snd (defensive_move g b p)) = assign_cell b c p))
   \<and> (\<not> fst (defensive_move g b p) \<longrightarrow> fst (snd (defensive_move g b p)) = b)
   \<and> (property_value q = property_value (if property_value p = 1 then P2 else P1) \<longrightarrow>
        winning_cells b q = winning_cells b (if property_value p = 1 then P2 else P1))
   \<and> (property_value q \<noteq> property_value (if property_value p = 1 then P2 else P1) \<longrightarrow>
        (0, 2) \<in> set (winning_cells (two_in_row (property_value q)) q)
        \<and> \<not> fst (defensive_move g (two_in_row (property_value q)) p)
        \<and> fst (snd (defensive_move g (two_in_row (property_value q)) p))
            = two_in_row (property_value q))"
proof -
  define sim where "sim = (if property_value p = 1 then P2 else P1)"
  have outcome: "(fst (defensive_move g b' p) \<longleftrightarrow> winning_cells b' sim \<noteq> [])
     \<and> (fst (defensive_move g b' p) \<longrightarrow>
          (\<exists>c \<in> set (winning_cells b' sim). fst (snd (defensive_move g b' p)) = assign_cell b' c p))
     \<and> (\<not> fst (defensive_move g b' p) \<longrightarrow> fst (snd (defensive_move g b' p)) = b')" for b'
    unfolding defensive_move_def Let_def sim_def
    by (rule defensive_while_outcome[OF opponent_not_tracker])
  have same: "winning_cells b q = winning_cells b sim" if "property_value q = property_value sim"
    using that by (rule winning_cells_mark_only)
  have other: "(0, 2) \<in> set (winning_cells (two_in_row (property_value q)) q)
        \<and> \<not> fst (defensive_move g (two_in_row (property_value q)) p)
        \<and> fst (snd (defensive_move g (two_in_row (property_value q)) p))
            = two_in_row (property_value q)"
    if neq: "property_value q \<noteq> property_value sim"
  proof -
    let ?b = "two_in_row (property_value q)"
    from simulated_mark[of p] have "property_value sim \<noteq> 0"
      unfolding sim_def by auto
    with neq two_in_row_cells[of "property_value q"] have "\<forall>x. ?b x \<noteq> property_value sim"
      by metis
    then have "winning_cells ?b sim = []"
      by (rule no_mark_no_winning_cell)
    with outcome[of ?b] have "\<not> fst (defensive_move g ?b p)"
      and "fst (snd (defensive_move g ?b p)) = ?b"
      by simp_all
    with two_in_row_threat[of q] show ?thesis by simp
  qed
  from outcome[of b] same other show ?thesis
    unfolding sim_def by blast
qed

text \<open>
  The theorem at two inputs. \<open>P2\<close> blocks the line of \<open>P1\<close> at \<open>(0, 2)\<close>. A player with
  mark 5 facing an opponent with mark 7 does not block the two marks 7 in row 0: the
  search tries the mark of \<open>P1\<close>.
\<close>

theorem defensive_move_simulated_opponent_witness:
  "winning_cells (board_of [[1, 1, 0], [0, - 1, 0], [0, 0, 0]]) P1 = [(0, 2)]
   \<and> fst (defensive_move (draws_of [6, 2]) (board_of [[1, 1, 0], [0, - 1, 0], [0, 0, 0]]) P2)
   \<and> rows_of (fst (snd (defensive_move (draws_of [6, 2]) (board_of [[1, 1, 0], [0, - 1, 0], [0, 0, 0]]) P2)))
       = [[1, 1, - 1], [0, - 1, 0], [0, 0, 0]]
   \<and> property_value seven_marked_player = 7
   \<and> property_value (if property_value five_marked_player = 1 then P2 else P1) = 1
   \<and> (0, 2) \<in> set (winning_cells (two_in_row 7) seven_marked_player)
   \<and> fst (defensive_move (draws_of [6, 2]) (two_in_row 7) five_marked_player) = False
   \<and> rows_of (fst (snd (defensive_move (draws_of [6, 2]) (two_in_row 7) five_marked_player)))
       = [[7, 7, 0], [0, 0, 0], [0, 0, 0]]"
proof -
  define b1 where "b1 = board_of [[1, 1, 0], [0, - 1, 0], [0, 0, 0]]"
  have o1: "(if property_value P2 = 1 then P2 else P1) = P1"
    by (simp add: P2_def)
  have v7: "property_value seven_marked_player = 7"
    by (simp add: seven_marked_player_def)
  have s5: "property_value (if property_value five_marked_player = 1 then P2 else P1) = 1"
    by (simp add: five_marked_player_def P1_def)
  have w1: "winning_cells b1 P1 = [(0, 2)]"
    unfolding b1_def by code_simp
  have rows1: "rows_of (fst (snd (defensive_move (draws_of [6, 2]) b1 P2)))
                = [[1, 1, - 1], [0, - 1, 0], [0, 0, 0]]"
    unfolding b1_def by code_simp
  have rows7: "rows_of (two_in_row 7) = [[7, 7, 0], [0, 0, 0], [0, 0, 0]]"
    by code_simp
  from defensive_move_simulated_opponent[of "draws_of [6, 2]" b1 P2 P1] w1
  have r1: "fst (defensive_move (draws_of [6, 2]) b1 P2)"
    unfolding o1 by simp
  from v7 s5 have neq: "property_value seven_marked_player
      \<noteq> property_value (if property_value five_marked_player = 1 then P2 else P1)"
    by simp
  from defensive_move_simulated_opponent[of "draws_of [6, 2]" b1 five_marked_player seven_marked_player] neq
  have r2: "(0, 2) \<in> set (winning_cells (two_in_row 7) seven_marked_player)"
    and r3: "fst (defensive_move (draws_of [6, 2]) (two_in_row 7) five_marked_player) = False"
    and r4: "fst (snd (defensive_move (draws_of [6, 2]) (two_in_row 7) five_marked_player)) = two_in_row 7"
    unfolding v7 by simp_all
  from r4 rows7 have r5: "rows_of (fst (snd (defensive_move (draws_of [6, 2]) (two_in_row 7) five_marked_player)))
       = [[7, 7, 0], [0, 0, 0], [0, 0, 0]]"
    by simp
  from w1 r1 rows1 v7 s5 r2 r3 r5 show ?thesis
    unfolding b1_def by (intro conjI)
qed

text \<open>
  An acting player whose mark is neither 1 nor -1 is not always served with the wrong
  opponent: a player with mark 5 facing \<open>P1\<close> has \<open>P1\<close> looked for, and blocks the line
  of \<open>P1\<close> at \<open>(0, 2)\<close>.
\<close>

theorem defensive_move_simulated_opponent_counterexample:
  "property_value five_marked_player = 5
   \<and> (if property_value five_marked_player = 1 then P2 else P1) = P1
   \<and> winning_cells (board_of [[1, 1, 0], [0, 5, 0], [0, 0, 0]]) P1 = [(0, 2)]
   \<and> fst (defensive_move (draws_of [4, 2]) (board_of [[1, 1, 0], [0, 5, 0], [0, 0, 0]])
            five_marked_player) = True
   \<and> rows_of (fst (snd (defensive_move (draws_of [4, 2]) (board_of [[1, 1, 0], [0, 5, 0], [0, 0, 0]])
            five_marked_player))) = [[1, 1, 5], [0, 5, 0], [0, 0, 0]]"
  by code_simp

section \<open>Lemmas about the choice of the board\<close>

lemma choose_board_body:
  "(let (x, g1) = random_choice g [0, 1, 2];
        (y, g2) = random_choice g1 [0, 1, 2];
        (meta_board', meta_board_results') =
          (if is_board_complete mr then reset_board mb mr (x, y) else (mb, mr));
        current_choice = meta_board_results' (x, y)
    in if current_choice = 0
       then Some (meta_board' (x, y), (x, y), meta_board', meta_board_results', g2)
       else f g2 meta_board' meta_board_results')
   = (if is_board_complete mr
      then Some (create_board, drawn_position g, mb (drawn_position g := create_board),
                 mr (drawn_position g := 0), after_position g)
      else if mr (drawn_position g) = 0
      then Some (mb (drawn_position g), drawn_position g, mb, mr, after_position g)
      else f (after_position g) mb mr)"
  by (cases "is_board_complete mr")
     (simp_all add: drawn_position_def after_position_def random_choice_def reset_board_def Let_def)

lemma choose_board_unfold:
  "choose_board g mb mr =
     (if is_board_complete mr
      then Some (create_board, drawn_position g, mb (drawn_position g := create_board),
                 mr (drawn_position g := 0), after_position g)
      else if mr (drawn_position g) = 0
      then Some (mb (drawn_position g), drawn_position g, mb, mr, after_position g)
      else choose_board (after_position g) mb mr)"
  by (subst choose_board.simps) (rule choose_board_body)

lemma nth_012: "[0, 1, 2 :: nat] ! (n mod 3) = n mod 3"
proof -
  have "n mod 3 < 3" by simp
  then have "n mod 3 = 0 \<or> n mod 3 = 1 \<or> n mod 3 = 2" by arith
  then show ?thesis by (elim disjE) simp_all
qed

lemma drawn_position_eq:
  "drawn_position g = (g 0 mod 3, g 1 mod 3)"
  using nth_012[of "g 0"] nth_012[of "g 1"]
  by (simp add: drawn_position_def random_choice_def rng_rest_def)

lemma drawn_position_range:
  "fst (drawn_position g) < 3 \<and> snd (drawn_position g) < 3"
  by (simp add: drawn_position_eq)

lemma after_position_shift:
  "(after_position ^^ n) (after_position g) = (after_position ^^ Suc n) g"
  by (simp add: funpow_swap1)

lemma returned_by_shift:
  "\<not> is_board_complete mr \<Longrightarrow> returned_by (after_position g) mb mr k = returned_by g mb mr (Suc k)"
  unfolding returned_by_def after_position_shift by simp

lemma choose_board_Some:
  assumes "choose_board g mb mr = Some r"
  shows "\<exists>k. r = returned_by g mb mr k
           \<and> (is_board_complete mr \<longrightarrow> k = 0)
           \<and> (\<not> is_board_complete mr \<longrightarrow> mr (drawn_position ((after_position ^^ k) g)) = 0)"
proof -
  let ?P = "\<lambda>g mb mr r. \<exists>k. r = returned_by g mb mr k
           \<and> (is_board_complete mr \<longrightarrow> k = 0)
           \<and> (\<not> is_board_complete mr \<longrightarrow> mr (drawn_position ((after_position ^^ k) g)) = 0)"
  have "?P g mb mr r"
  proof (rule choose_board.raw_induct[where P = ?P, OF _ assms])
    fix f :: "rng \<Rightarrow> board grid \<Rightarrow> int grid \<Rightarrow> (board \<times> cell \<times> board grid \<times> int grid \<times> rng) option"
    fix g mb mr r
    assume IH: "\<And>g mb mr r. f g mb mr = Some r \<Longrightarrow> ?P g mb mr r"
    assume "(let (x, g1) = random_choice g [0, 1, 2];
                 (y, g2) = random_choice g1 [0, 1, 2];
                 (meta_board', meta_board_results') =
                   (if is_board_complete mr then reset_board mb mr (x, y) else (mb, mr));
                 current_choice = meta_board_results' (x, y)
             in if current_choice = 0
                then Some (meta_board' (x, y), (x, y), meta_board', meta_board_results', g2)
                else f g2 meta_board' meta_board_results') = Some r"
    then have body: "(if is_board_complete mr
        then Some (create_board, drawn_position g, mb (drawn_position g := create_board),
                   mr (drawn_position g := 0), after_position g)
        else if mr (drawn_position g) = 0
        then Some (mb (drawn_position g), drawn_position g, mb, mr, after_position g)
        else f (after_position g) mb mr) = Some r"
      by (simp only: choose_board_body)
    show "?P g mb mr r"
    proof (cases "is_board_complete mr")
      case True
      with body show ?thesis
        by (intro exI[of _ 0]) (auto simp: returned_by_def)
    next
      case False
      show ?thesis
      proof (cases "mr (drawn_position g) = 0")
        case True
        with body False show ?thesis
          by (intro exI[of _ 0]) (auto simp: returned_by_def)
      next
        case nz: False
        with body False have "f (after_position g) mb mr = Some r" by simp
        from IH[OF this] False obtain k where
          k: "r = returned_by (after_position g) mb mr k"
             "mr (drawn_position ((after_position ^^ k) (after_position g))) = 0"
          by blast
        from k False show ?thesis
          unfolding after_position_shift
          by (intro exI[of _ "Suc k"]) (simp add: returned_by_shift)
      qed
    qed
  qed
  then show ?thesis .
qed

lemma draws_of_Nil_funpow:
  "(after_position ^^ k) (draws_of []) = draws_of []"
proof (induction k)
  case 0
  show ?case by simp
next
  case (Suc k)
  have "after_position (draws_of []) = draws_of []"
    by (simp add: after_position_def rng_rest_def draws_of_def)
  with Suc show ?case by simp
qed

lemma choose_board_within_Suc:
  "choose_board_within (Suc d) g mb mr =
     (if is_board_complete mr
      then Inr (create_board, drawn_position g, mb (drawn_position g := create_board),
                mr (drawn_position g := 0), after_position g)
      else if mr (drawn_position g) = 0
      then Inr (mb (drawn_position g), drawn_position g, mb, mr, after_position g)
      else choose_board_within d (after_position g) mb mr)"
  by (cases "is_board_complete mr")
     (simp_all add: drawn_position_def after_position_def random_choice_def reset_board_def Let_def)

declare choose_board_within.simps(2) [simp del]

lemma choose_board_within_Inr_iff:
  "(\<exists>b pos mb' mr' g'. choose_board_within d g mb mr = Inr (b, pos, mb', mr', g') \<and> mr' pos = 0)
     \<longleftrightarrow> (0 < d \<and> is_board_complete mr)
          \<or> (\<exists>k<d. mr (drawn_position ((after_position ^^ k) g)) = 0)"
proof (induction d arbitrary: g)
  case 0
  show ?case by simp
next
  case (Suc d)
  show ?case
  proof (cases "is_board_complete mr")
    case True
    then show ?thesis by (simp add: choose_board_within_Suc)
  next
    case False
    show ?thesis
    proof (cases "mr (drawn_position g) = 0")
      case True
      then have "\<exists>k<Suc d. mr (drawn_position ((after_position ^^ k) g)) = 0"
        by (intro exI[of _ 0]) simp
      with True False show ?thesis by (simp add: choose_board_within_Suc)
    next
      case nz: False
      have "(\<exists>k<Suc d. mr (drawn_position ((after_position ^^ k) g)) = 0)
              \<longleftrightarrow> (\<exists>k<d. mr (drawn_position ((after_position ^^ k) (after_position g))) = 0)"
      proof
        assume "\<exists>k<Suc d. mr (drawn_position ((after_position ^^ k) g)) = 0"
        then obtain k where k: "k < Suc d" "mr (drawn_position ((after_position ^^ k) g)) = 0"
          by blast
        with nz obtain k' where "k = Suc k'" by (cases k) auto
        with k show "\<exists>k<d. mr (drawn_position ((after_position ^^ k) (after_position g))) = 0"
          by (intro exI[of _ k']) (simp add: funpow_swap1)
      next
        assume "\<exists>k<d. mr (drawn_position ((after_position ^^ k) (after_position g))) = 0"
        then obtain k where "k < d" "mr (drawn_position ((after_position ^^ k) (after_position g))) = 0"
          by blast
        then show "\<exists>k<Suc d. mr (drawn_position ((after_position ^^ k) g)) = 0"
          by (intro exI[of _ "Suc k"]) (simp add: funpow_swap1)
      qed
      with nz False Suc.IH[of "after_position g"] show ?thesis
        by (simp add: choose_board_within_Suc)
    qed
  qed
qed

lemma choose_board_within_Inr:
  "choose_board_within d g mb mr = Inr (b, pos, mb', mr', g') \<Longrightarrow> mr' pos = 0"
proof (induction d arbitrary: g)
  case 0
  then show ?case by simp
next
  case (Suc d)
  then show ?case
    by (auto simp: choose_board_within_Suc split: if_splits)
qed

lemma choose_board_within_refines:
  "choose_board_within d g mb mr = Inr r \<Longrightarrow> choose_board g mb mr = Some r"
proof (induction d arbitrary: g)
  case 0
  then show ?case by simp
next
  case (Suc d)
  then show ?case
    by (subst choose_board_unfold) (auto simp: choose_board_within_Suc split: if_splits)
qed

lemma choose_board_within_Inl_iff:
  "choose_board_within d g mb mr = Inl RecursionError
     \<longleftrightarrow> \<not> ((0 < d \<and> is_board_complete mr)
            \<or> (\<exists>k<d. mr (drawn_position ((after_position ^^ k) g)) = 0))"
proof (cases "choose_board_within d g mb mr")
  case (Inl e)
  then have "\<not> (\<exists>b pos mb' mr' g'.
      choose_board_within d g mb mr = Inr (b, pos, mb', mr', g') \<and> mr' pos = 0)"
    by simp
  with Inl show ?thesis
    unfolding choose_board_within_Inr_iff by (cases e) simp
next
  case (Inr r)
  obtain b pos mb' mr' g' where r: "r = (b, pos, mb', mr', g')"
    by (cases r)
  from Inr r choose_board_within_Inr[of d g mb mr b pos mb' mr' g']
  have "\<exists>b pos mb' mr' g'.
      choose_board_within d g mb mr = Inr (b, pos, mb', mr', g') \<and> mr' pos = 0"
    by blast
  with Inr show ?thesis
    unfolding choose_board_within_Inr_iff by simp
qed

section \<open>Claims about the meta game\<close>

text \<open>
  Claim C4. \<open>choose_board\<close> resets the drawn position only when the meta results have
  no empty entry: it then resets that position and returns it. When the grid has an empty
  entry and the drawn position is decided, it draws again on the unchanged arrays.
  Whenever it returns, the returned position has an empty meta result, lies in the grid,
  the returned board is the board at that position, and if the grid had an empty entry
  neither array was changed.
\<close>

theorem choose_board_reset_rule:
  "(is_board_complete mr \<longrightarrow>
      choose_board g mb mr
        = Some (create_board, drawn_position g, mb (drawn_position g := create_board),
                mr (drawn_position g := 0), after_position g))
   \<and> (\<not> is_board_complete mr \<and> mr (drawn_position g) \<noteq> 0 \<longrightarrow>
        choose_board g mb mr = choose_board (after_position g) mb mr)
   \<and> (\<forall>b pos mb' mr' g'. choose_board g mb mr = Some (b, pos, mb', mr', g') \<longrightarrow>
        mr' pos = 0 \<and> b = mb' pos \<and> fst pos < 3 \<and> snd pos < 3
        \<and> (\<not> is_board_complete mr \<longrightarrow> mb' = mb \<and> mr' = mr))"
proof (intro conjI allI impI)
  assume "is_board_complete mr"
  then show "choose_board g mb mr
        = Some (create_board, drawn_position g, mb (drawn_position g := create_board),
                mr (drawn_position g := 0), after_position g)"
    by (subst choose_board_unfold) simp
next
  assume "\<not> is_board_complete mr \<and> mr (drawn_position g) \<noteq> 0"
  then show "choose_board g mb mr = choose_board (after_position g) mb mr"
    by (subst choose_board_unfold) simp
next
  fix b pos mb' mr' g'
  assume ret: "choose_board g mb mr = Some (b, pos, mb', mr', g')"
  from choose_board_Some[OF ret] obtain k where
    k: "(b, pos, mb', mr', g') = returned_by g mb mr k"
       "\<not> is_board_complete mr \<longrightarrow> mr (drawn_position ((after_position ^^ k) g)) = 0"
    by blast
  from k show "mr' pos = 0"
    by (cases "is_board_complete mr") (simp_all add: returned_by_def Let_def)
  from k show "b = mb' pos"
    by (cases "is_board_complete mr") (simp_all add: returned_by_def Let_def)
  from k have "pos = drawn_position ((after_position ^^ k) g)"
    by (cases "is_board_complete mr") (simp_all add: returned_by_def Let_def)
  then show "fst pos < 3" "snd pos < 3"
    by (simp_all add: drawn_position_range)
  assume "\<not> is_board_complete mr"
  with k show "mb' = mb" "mr' = mr"
    by (simp_all add: returned_by_def Let_def)
qed

text \<open>
  The theorem at a grid with no empty entry, where the drawn position \<open>(1, 2)\<close> is reset
  and returned, and at a grid with two decided entries, where the first two draws land
  on the decided positions \<open>(0, 0)\<close> and \<open>(1, 1)\<close> and the third draw \<open>(2, 1)\<close> is returned
  with the grid unchanged.
\<close>

theorem choose_board_reset_rule_witness:
  "is_board_complete (board_of [[1, - 1, 1], [1, - 1, - 1], [- 1, 1, 1]])
   \<and> chosen (choose_board (draws_of [1, 2]) fresh_meta_board
                (board_of [[1, - 1, 1], [1, - 1, - 1], [- 1, 1, 1]]))
       = Some ((1, 2), [[1, - 1, 1], [1, - 1, 0], [- 1, 1, 1]])
   \<and> is_board_complete (board_of [[1, 0, 0], [0, - 1, 0], [0, 0, 0]]) = False
   \<and> board_of [[1, 0, 0], [0, - 1, 0], [0, 0, 0]] (drawn_position (draws_of [3, 0, 1, 4, 2, 1])) = 1
   \<and> chosen (choose_board (draws_of [3, 0, 1, 4, 2, 1]) fresh_meta_board
                (board_of [[1, 0, 0], [0, - 1, 0], [0, 0, 0]]))
       = Some ((2, 1), [[1, 0, 0], [0, - 1, 0], [0, 0, 0]])"
proof -
  define full where "full = board_of [[1, - 1, 1], [1, - 1, - 1], [- 1, 1, 1]]"
  define part where "part = board_of [[1, 0, 0], [0, - 1, 0], [0, 0, 0]]"
  define g1 where "g1 = draws_of [1, 2]"
  define g2 where "g2 = draws_of [3, 0, 1, 4, 2, 1]"
  have c1: "is_board_complete full"
    unfolding full_def by code_simp
  have c2: "is_board_complete part = False"
    unfolding part_def by code_simp
  have d2: "part (drawn_position g2) = 1"
    unfolding part_def g2_def by code_simp
  from choose_board_reset_rule[of full g1 fresh_meta_board] c1
  have "choose_board g1 fresh_meta_board full
          = Some (create_board, drawn_position g1, fresh_meta_board (drawn_position g1 := create_board),
                  full (drawn_position g1 := 0), after_position g1)"
    by (elim conjE) simp
  moreover have "chosen (Some (create_board, drawn_position g1,
                    fresh_meta_board (drawn_position g1 := create_board),
                    full (drawn_position g1 := 0), after_position g1))
                  = Some ((1, 2), [[1, - 1, 1], [1, - 1, 0], [- 1, 1, 1]])"
    unfolding full_def g1_def by code_simp
  ultimately have r1: "chosen (choose_board g1 fresh_meta_board full)
                         = Some ((1, 2), [[1, - 1, 1], [1, - 1, 0], [- 1, 1, 1]])"
    by simp
  from choose_board_reset_rule[of part g2 fresh_meta_board] c2 d2
  have "choose_board g2 fresh_meta_board part = choose_board (after_position g2) fresh_meta_board part"
    by (elim conjE) simp
  moreover have "chosen (choose_board (after_position g2) fresh_meta_board part)
                   = Some ((2, 1), [[1, 0, 0], [0, - 1, 0], [0, 0, 0]])"
    unfolding part_def g2_def by code_simp
  ultimately have r2: "chosen (choose_board g2 fresh_meta_board part)
                         = Some ((2, 1), [[1, 0, 0], [0, - 1, 0], [0, 0, 0]])"
    by simp
  from c1 r1 c2 d2 r2 show ?thesis
    unfolding full_def part_def g1_def g2_def by (intro conjI)
qed

text \<open>
  Claim C5. What the loop does with the outcome of a move: \<open>OFFENSE\<close> sets the meta
  result at the position to the player's mark and leaves the boards alone; \<open>FULL\<close>
  replaces the board at the position by a fresh board, all of whose nine cells are
  empty, and sets the meta result there to empty; \<open>DEFENSE\<close> and \<open>RANDOM\<close> change
  neither the meta results nor the boards.
\<close>

theorem resolve_status_cases:
  "resolve_status OFFENSE mb mr pos player = (mb, mr (pos := property_value player))
   \<and> resolve_status FULL mb mr pos player = (mb (pos := create_board), mr (pos := 0))
   \<and> find_available_cells (fst (resolve_status FULL mb mr pos player) pos)
       = List.product [0 ..< 3] [0 ..< 3]
   \<and> (\<forall>c. fst (resolve_status FULL mb mr pos player) pos c = 0)
   \<and> snd (resolve_status FULL mb mr pos player) pos = 0
   \<and> resolve_status DEFENSE mb mr pos player = (mb, mr)
   \<and> resolve_status RANDOM mb mr pos player = (mb, mr)"
  by (simp add: resolve_status_def reset_board_def update_meta_results_def create_board_def
        find_available_cells_def)

text \<open>
  Claim C9. The choice of the board is not total, and the grid does not bound its
  retries. With room for \<open>d\<close> nested calls, \<open>choose_board\<close> returns a position, whose meta
  result is then empty, exactly when the meta results have no empty entry (and \<open>d\<close> is
  not 0) or one of the first \<open>d\<close> drawn positions has an empty meta result; in every
  other case it ends in \<open>RecursionError\<close>. What it returns is what \<open>choose_board\<close>
  without a limit returns.
\<close>

theorem choose_board_within_returns_iff:
  "((\<exists>b pos mb' mr' g'. choose_board_within d g mb mr = Inr (b, pos, mb', mr', g') \<and> mr' pos = 0)
      \<longleftrightarrow> (0 < d \<and> is_board_complete mr)
           \<or> (\<exists>k<d. mr (drawn_position ((after_position ^^ k) g)) = 0))
   \<and> (choose_board_within d g mb mr = Inl RecursionError
      \<longleftrightarrow> \<not> ((0 < d \<and> is_board_complete mr)
             \<or> (\<exists>k<d. mr (drawn_position ((after_position ^^ k) g)) = 0)))
   \<and> (\<forall>r. choose_board_within d g mb mr = Inr r \<longrightarrow> choose_board g mb mr = Some r)"
  using choose_board_within_Inr_iff[of d g mb mr] choose_board_within_Inl_iff[of d g mb mr]
    choose_board_within_refines[of d g mb mr]
  by blast

text \<open>
  The theorem at a grid with two decided entries and draws whose third position is the
  first empty one: three nested calls return position \<open>(2, 1)\<close>, two end in
  \<open>RecursionError\<close>.
\<close>

theorem choose_board_within_returns_iff_witness:
  "board_of [[1, 0, 0], [0, - 1, 0], [0, 0, 0]]
       (drawn_position ((after_position ^^ 2) (draws_of [3, 0, 1, 4, 2, 1]))) = 0
   \<and> choose_board_within 3 (draws_of [3, 0, 1, 4, 2, 1]) fresh_meta_board
        (board_of [[1, 0, 0], [0, - 1, 0], [0, 0, 0]]) \<noteq> Inl RecursionError
   \<and> chosen (choose_board (draws_of [3, 0, 1, 4, 2, 1]) fresh_meta_board
        (board_of [[1, 0, 0], [0, - 1, 0], [0, 0, 0]]))
       = Some ((2, 1), [[1, 0, 0], [0, - 1, 0], [0, 0, 0]])
   \<and> choose_board_within 2 (draws_of [3, 0, 1, 4, 2, 1]) fresh_meta_board
        (board_of [[1, 0, 0], [0, - 1, 0], [0, 0, 0]]) = Inl RecursionError"
proof -
  define part where "part = board_of [[1, 0, 0], [0, - 1, 0], [0, 0, 0]]"
  define g where "g = draws_of [3, 0, 1, 4, 2, 1]"
  have hit: "part (drawn_position ((after_position ^^ 2) g)) = 0"
    unfolding part_def g_def by code_simp
  have "(2::nat) < 3" by simp
  with hit have late: "\<exists>k<3. part (drawn_position ((after_position ^^ k) g)) = 0"
    by blast
  with choose_board_within_returns_iff[of 3 g fresh_meta_board part]
  have r3: "choose_board_within 3 g fresh_meta_board part \<noteq> Inl RecursionError"
    by simp
  then obtain r where r: "choose_board_within 3 g fresh_meta_board part = Inr r"
    by (cases "choose_board_within 3 g fresh_meta_board part") (auto intro: error.exhaust)
  with choose_board_within_returns_iff[of 3 g fresh_meta_board part]
  have "choose_board g fresh_meta_board part = Some r"
    by blast
  moreover have "chosen (case choose_board_within 3 g fresh_meta_board part of
                    Inl e \<Rightarrow> None | Inr r \<Rightarrow> Some r)
                  = Some ((2, 1), [[1, 0, 0], [0, - 1, 0], [0, 0, 0]])"
    unfolding part_def g_def by code_simp
  ultimately have view: "chosen (choose_board g fresh_meta_board part)
                  = Some ((2, 1), [[1, 0, 0], [0, - 1, 0], [0, 0, 0]])"
    using r by simp
  have early: "\<not> ((0 < (2::nat) \<and> is_board_complete part)
                   \<or> (\<exists>k<2. part (drawn_position ((after_position ^^ k) g)) = 0))"
    unfolding part_def g_def by code_simp
  with choose_board_within_returns_iff[of 2 g fresh_meta_board part]
  have r2: "choose_board_within 2 g fresh_meta_board part = Inl RecursionError"
    by blast
  from hit r3 view r2 show ?thesis
    unfolding part_def g_def by (intro conjI)
qed

text \<open>
  On a grid that is not fully decided the choice need not reach an empty position: when
  only \<open>(0, 0)\<close> is decided and every draw is 0, each call draws \<open>(0, 0)\<close> again. Without
  a limit the function never returns, and with room for 1000 nested calls it ends in
  \<open>RecursionError\<close>.
\<close>

theorem choose_board_never_returns_counterexample:
  "is_board_complete (board_of [[1, 0, 0], [0, 0, 0], [0, 0, 0]]) = False
   \<and> choose_board (draws_of []) fresh_meta_board (board_of [[1, 0, 0], [0, 0, 0], [0, 0, 0]]) = None
   \<and> choose_board_within 1000 (draws_of []) fresh_meta_board
        (board_of [[1, 0, 0], [0, 0, 0], [0, 0, 0]]) = Inl RecursionError"
proof -
  define mr where "mr = board_of [[1, 0, 0], [0, 0, 0], [0, 0, 0]]"
  have open_grid: "is_board_complete mr = False"
    unfolding mr_def by code_simp
  have decided: "mr (drawn_position (draws_of [])) \<noteq> 0"
    by (simp add: drawn_position_eq draws_of_def mr_def board_of_def)
  have never: "choose_board (draws_of []) fresh_meta_board mr = None"
  proof (cases "choose_board (draws_of []) fresh_meta_board mr")
    case None
    then show ?thesis .
  next
    case (Some r)
    from choose_board_Some[OF Some] open_grid
    obtain k where "mr (drawn_position ((after_position ^^ k) (draws_of []))) = 0"
      by auto
    with decided show ?thesis
      by (simp add: draws_of_Nil_funpow)
  qed
  from decided open_grid
  have "\<not> ((0 < (1000::nat) \<and> is_board_complete mr)
            \<or> (\<exists>k<1000. mr (drawn_position ((after_position ^^ k) (draws_of []))) = 0))"
    by (simp add: draws_of_Nil_funpow)
  then have "choose_board_within 1000 (draws_of []) fresh_meta_board mr = Inl RecursionError"
    unfolding choose_board_within_Inl_iff .
  with open_grid never show ?thesis
    unfolding mr_def by simp
qed

text \<open>
  Claim C6. The order in the loop of \<open>play_meta_game_bots\<close> is: test the meta results,
  resolve the outcome of the previous move, make the next move. So one more move is made
  after the outcome that gives a player three meta cells in a line has been resolved,
  and the outcome of that last move is never resolved. Two games show it.

  In the game played with \<open>extra_move_draws\<close>, after 16 rounds \<open>P1\<close> has just completed
  row 0 of board \<open>(0, 2)\<close> and holds the meta cells \<open>(0, 0)\<close> and \<open>(0, 1)\<close>. The loop runs
  once more: it gives \<open>P1\<close> the meta cell \<open>(0, 2)\<close>, and then \<open>P2\<close> completes row 0 of
  board \<open>(1, 2)\<close>. Then the loop ends; the meta cell \<open>(1, 2)\<close> is still empty, and \<open>P1\<close>
  is returned.

  In the game played with \<open>reset_draws\<close>, after 28 rounds eight meta cells are decided
  and \<open>P1\<close> has just completed board \<open>(2, 2)\<close>; resolving this outcome gives \<open>P1\<close> the
  diagonal. The round that resolves it goes on to choose a board: the grid is now fully
  decided, so the drawn position \<open>(1, 1)\<close> is reset, \<open>P2\<close> moves on the fresh board, and
  the loop condition holds again: the game goes on although \<open>P1\<close> held three meta cells
  in a line.
\<close>

theorem bots_game_moves_after_win:
  "map_option game_summary (bots_game_after 16 (draws_of extra_move_draws))
     = Some ([[1, 1, 0], [- 1, - 1, 0], [0, 0, 0]], 1, (0, 2), OFFENSE,
             [[1, 1, 1], [0, 0, 0], [0, 0, 0]])
   \<and> map_option resolved_results (bots_game_after 16 (draws_of extra_move_draws))
     = Some [[1, 1, 1], [- 1, - 1, 0], [0, 0, 0]]
   \<and> map_option game_summary (bots_game (draws_of extra_move_draws))
     = Some ([[1, 1, 1], [- 1, - 1, 0], [0, 0, 0]], - 1, (1, 2), OFFENSE,
             [[- 1, - 1, - 1], [0, 0, 0], [0, 0, 0]])
   \<and> play_meta_game_bots (draws_of extra_move_draws) = Some P1
   \<and> map_option game_summary (bots_game_after 28 (draws_of reset_draws))
     = Some ([[1, - 1, 1], [- 1, 1, - 1], [- 1, 1, 0]], 1, (2, 2), OFFENSE,
             [[1, 1, 1], [0, 0, 0], [0, 0, - 1]])
   \<and> map_option resolved_results (bots_game_after 28 (draws_of reset_draws))
     = Some [[1, - 1, 1], [- 1, 1, - 1], [- 1, 1, 1]]
   \<and> map_option game_summary (bots_game_after 29 (draws_of reset_draws))
     = Some ([[1, - 1, 1], [- 1, 0, - 1], [- 1, 1, 1]], - 1, (1, 1), RANDOM,
             [[- 1, 0, 0], [0, 0, 0], [0, 0, 0]])
   \<and> map_option while_condition (bots_game_after 29 (draws_of reset_draws)) = Some True"
proof (intro conjI)
  show "map_option game_summary (bots_game_after 16 (draws_of extra_move_draws))
     = Some ([[1, 1, 0], [- 1, - 1, 0], [0, 0, 0]], 1, (0, 2), OFFENSE,
             [[1, 1, 1], [0, 0, 0], [0, 0, 0]])"
    by code_simp
  show "map_option resolved_results (bots_game_after 16 (draws_of extra_move_draws))
     = Some [[1, 1, 1], [- 1, - 1, 0], [0, 0, 0]]"
    by code_simp
  show "map_option game_summary (bots_game (draws_of extra_move_draws))
     = Some ([[1, 1, 1], [- 1, - 1, 0], [0, 0, 0]], - 1, (1, 2), OFFENSE,
             [[- 1, - 1, - 1], [0, 0, 0], [0, 0, 0]])"
    by code_simp
  show "play_meta_game_bots (draws_of extra_move_draws) = Some P1"
    by code_simp
  show "map_option game_summary (bots_game_after 28 (draws_of reset_draws))
     = Some ([[1, - 1, 1], [- 1, 1, - 1], [- 1, 1, 0]], 1, (2, 2), OFFENSE,
             [[1, 1, 1], [0, 0, 0], [0, 0, - 1]])"
    by code_simp
  show "map_option resolved_results (bots_game_after 28 (draws_of reset_draws))
     = Some [[1, - 1, 1], [- 1, 1, - 1], [- 1, 1, 1]]"
    by code_simp
  show "map_option game_summary (bots_game_after 29 (draws_of reset_draws))
     = Some ([[1, - 1, 1], [- 1, 0, - 1], [- 1, 1, 1]], - 1, (1, 1), RANDOM,
             [[- 1, 0, 0], [0, 0, 0], [0, 0, 0]])"
    by code_simp
  show "map_option while_condition (bots_game_after 29 (draws_of reset_draws)) = Some True"
    by code_simp
qed

end
